theory Spec2Isabelle
  imports Main "HOL-Library.Sublist"
begin

section \<open>Secret of Evermore world: shallow embedding of \<open>worlds/soe/__init__.py\<close>\<close>

text \<open>
  Python exceptions are values: a fallible operation returns \<open>py_error + 'a\<close>, with
  \<open>Inl\<close> for the raised exception.
\<close>

datatype py_error =
  KeyError | AttributeError | TypeError | UnicodeEncodeError | FileNotFoundError
  | PermissionError | RuntimeError | Exception

subsection \<open>Native catalog and numeric ids (module level, \<open>_get_location_mapping\<close>, \<open>_get_item_mapping\<close>)\<close>

text \<open>
  \<open>pyevermizer\<close> is a compiled extension outside this module. Its integer constants are
  parameters, gathered in a record; its catalog (\<open>get_items()\<close>, \<open>get_locations()\<close>) is a
  list of entries with the attributes this module reads.
\<close>

record pyevermizer =
  CHECK_NONE :: int
  CHECK_ALCHEMY :: int
  CHECK_BOSS :: int
  CHECK_GOURD :: int
  CHECK_NPC :: int
  P_FINAL_BOSS :: int

record raw_item =
  item_type :: int
  item_index :: int
  item_name :: string
  item_progression :: bool

record raw_location =
  loc_type :: int
  loc_index :: int
  loc_name :: string
  loc_requires :: "(int \<times> int) list"

definition id_base :: int where
  "id_base = 64000"

text \<open>
  The dictionary display \<open>_id_offset = {CHECK_ALCHEMY: ..., CHECK_BOSS: ..., ...}\<close>: keys
  are entered in order, a later equal key replacing an earlier one.
\<close>

definition id_offset :: "pyevermizer \<Rightarrow> (int \<rightharpoonup> int)" where
  "id_offset pe =
     [CHECK_ALCHEMY pe \<mapsto> id_base + 0,
      CHECK_BOSS pe \<mapsto> id_base + 50,
      CHECK_GOURD pe \<mapsto> id_base + 100,
      CHECK_NPC pe \<mapsto> id_base + 400]"

text \<open>Python's \<open>str\<close> of an integer, as the f-strings of this module render it.\<close>

fun digits :: "nat \<Rightarrow> string" where
  "digits n = (if n < 10 then [''0123456789'' ! n]
               else digits (n div 10) @ [''0123456789'' ! (n mod 10)])"

declare digits.simps [simp del]

definition str_int :: "int \<Rightarrow> string" where
  "str_int i = (if i < 0 then CHR ''-'' # digits (nat (- i)) else digits (nat i))"


text \<open>\<open>apid = _id_offset[x.type] + x.index\<close>; a type that is no key raises \<open>KeyError\<close>.\<close>

definition apid :: "(int \<rightharpoonup> int) \<Rightarrow> int \<Rightarrow> int \<Rightarrow> py_error + int" where
  "apid offsets ty ix = (case offsets ty of None \<Rightarrow> Inl KeyError | Some base \<Rightarrow> Inr (base + ix))"

text \<open>
  The loop of \<open>_get_location_mapping\<close>, with the two dictionaries as accumulators.
  \<open>name_to_id\<close> maps a name to an optional id, since \<open>'Done'\<close> is entered with \<open>None\<close>.
\<close>

fun location_mapping_loop ::
  "(int \<rightharpoonup> int) \<Rightarrow> raw_location list \<Rightarrow> (string \<rightharpoonup> int option) \<Rightarrow> (int \<rightharpoonup> raw_location) \<Rightarrow>
     py_error + (string \<rightharpoonup> int option) \<times> (int \<rightharpoonup> raw_location)" where
  "location_mapping_loop offsets [] name_to_id id_to_raw = Inr (name_to_id, id_to_raw)"
| "location_mapping_loop offsets (loc # locs) name_to_id id_to_raw =
     (case apid offsets (loc_type loc) (loc_index loc) of
        Inl e \<Rightarrow> Inl e
      | Inr a \<Rightarrow>
          location_mapping_loop offsets locs
            (name_to_id(loc_name loc \<mapsto> Some a)) (id_to_raw(a \<mapsto> loc)))"

definition get_location_mapping ::
  "pyevermizer \<Rightarrow> raw_location list \<Rightarrow>
     py_error + (string \<rightharpoonup> int option) \<times> (int \<rightharpoonup> raw_location)" where
  "get_location_mapping pe locations =
     (case location_mapping_loop (id_offset pe) locations Map.empty Map.empty of
        Inl e \<Rightarrow> Inl e
      | Inr (name_to_id, id_to_raw) \<Rightarrow> Inr (name_to_id(''Done'' \<mapsto> None), id_to_raw))"







subsection \<open>Rule compiler (\<open>SoEWorld.make_rule\<close>)\<close>

text \<open>
  \<open>state._soe_has(progress, self.world, self.player, count)\<close> lives in the logic mixin,
  which is an oracle here: a parameter \<open>soe_has state progress player count\<close> (the world
  is the one ambient multiworld). The inner function \<open>rule\<close> is the \<open>for\<close> loop with its
  early \<open>return False\<close>; \<open>requires\<close> is a list of \<open>(count, progress)\<close> pairs.
\<close>

fun rule :: "('st \<Rightarrow> int \<Rightarrow> int \<Rightarrow> int \<Rightarrow> bool) \<Rightarrow> int \<Rightarrow> (int \<times> int) list \<Rightarrow> 'st \<Rightarrow> bool" where
  "rule soe_has player [] state = True"
| "rule soe_has player ((count, progress) # requires) state =
     (if \<not> soe_has state progress player count then False
      else rule soe_has player requires state)"

definition make_rule ::
  "('st \<Rightarrow> int \<Rightarrow> int \<Rightarrow> int \<Rightarrow> bool) \<Rightarrow> int \<Rightarrow> (int \<times> int) list \<Rightarrow> ('st \<Rightarrow> bool)" where
  "make_rule soe_has player requires = (\<lambda>state. rule soe_has player requires state)"

subsection \<open>Name finalization (\<open>SoEWorld.generate_output\<close>, first stage)\<close>

text \<open>
  A player's display name is a Python \<open>str\<close>: a list of code points (\<open>nat\<close>), so that
  slicing counts characters and \<open>encode('utf-8')\<close> counts bytes. \<open>encode_char\<close> is the
  UTF-8 encoding of one code point (one to four bytes); a lone surrogate
  (\<open>0xD800..0xDFFF\<close>) has no encoding and makes \<open>str.encode\<close> raise
  \<open>UnicodeEncodeError\<close>. A Python \<open>str\<close> holds no code point above \<open>0x10FFFF\<close>.
\<close>

definition encode_char :: "nat \<Rightarrow> nat list option" where
  "encode_char c =
     (if c < 0x80 then Some [c]
      else if c < 0x800 then Some [0xC0 + c div 0x40, 0x80 + c mod 0x40]
      else if 0xD800 \<le> c \<and> c < 0xE000 then None
      else if c < 0x10000 then
        Some [0xE0 + c div 0x1000, 0x80 + (c div 0x40) mod 0x40, 0x80 + c mod 0x40]
      else if c < 0x110000 then
        Some [0xF0 + c div 0x40000, 0x80 + (c div 0x1000) mod 0x40,
              0x80 + (c div 0x40) mod 0x40, 0x80 + c mod 0x40]
      else None)"

fun encode_utf8 :: "nat list \<Rightarrow> py_error + nat list" where
  "encode_utf8 [] = Inr []"
| "encode_utf8 (c # cs) =
     (case encode_char c of
        None \<Rightarrow> Inl UnicodeEncodeError
      | Some bs \<Rightarrow> (case encode_utf8 cs of Inl e \<Rightarrow> Inl e | Inr rest \<Rightarrow> Inr (bs @ rest)))"

text \<open>
  The loop
  \<^verbatim>\<open>while len(self.connect_name.encode('utf-8')) > 32:
      self.connect_name = self.connect_name[:-1]\<close>
  as a partial function: \<open>None\<close> would be a loop that never returns, \<open>Some (Inl e)\<close> an
  exception raised by \<open>encode\<close>, \<open>Some (Inr s)\<close> the value of \<open>connect_name\<close> at exit.
  \<open>s[:-1]\<close> is \<open>butlast s\<close>, also on the empty string.
\<close>

partial_function (option) truncate_loop :: "nat list \<Rightarrow> (py_error + nat list) option" where
  "truncate_loop connect_name =
     (case encode_utf8 connect_name of
        Inl e \<Rightarrow> Some (Inl e)
      | Inr bs \<Rightarrow>
          if length bs > 32 then truncate_loop (butlast connect_name)
          else Some (Inr connect_name))"

declare truncate_loop.simps [code]

text \<open>\<open>self.connect_name = player_name[:32]\<close>, then the loop.\<close>

definition finalize_name :: "nat list \<Rightarrow> (py_error + nat list) option" where
  "finalize_name player_name = truncate_loop (take 32 player_name)"

text \<open>
  Vocabulary for the properties: a string is encodable when \<open>encode\<close> does not raise on
  it; it fits when its encoding exists and has at most 32 bytes; \<open>char_len\<close> is the
  number of bytes of one character.
\<close>

definition encodable :: "nat list \<Rightarrow> bool" where
  "encodable s = (\<forall>c \<in> set s. encode_char c \<noteq> None)"

definition fits_32_bytes :: "nat list \<Rightarrow> bool" where
  "fits_32_bytes s = (case encode_utf8 s of Inl e \<Rightarrow> False | Inr bs \<Rightarrow> length bs \<le> 32)"

definition char_len :: "nat \<Rightarrow> nat" where
  "char_len c = (case encode_char c of None \<Rightarrow> 0 | Some bs \<Rightarrow> length bs)"

subsection \<open>Connect-name table (\<open>SoEWorld.modify_multidata\<close>)\<close>

text \<open>
  \<open>multidata["connect_names"]\<close> is a dictionary from player names to a payload; the
  function mutates it in place, the model returns the new table. \<open>registered\<close> is
  \<open>self.world.player_name[self.player]\<close>. The \<open>wait()\<close> on the event that precedes
  the test is not part of the model: the function is what runs once the wait has returned.
  A missing key makes \<open>multidata["connect_names"][...]\<close> raise \<open>KeyError\<close>.
\<close>

definition modify_multidata ::
  "nat list \<Rightarrow> nat list \<Rightarrow> (nat list \<rightharpoonup> 'p) \<Rightarrow> py_error + (nat list \<rightharpoonup> 'p)" where
  "modify_multidata connect_name registered connect_names =
     (if connect_name \<noteq> [] \<and> connect_name \<noteq> registered then
        (case connect_names registered of
           None \<Rightarrow> Inl KeyError
         | Some payload \<Rightarrow>
             Inr ((connect_names(connect_name \<mapsto> payload))(registered := None)))
      else Inr connect_names)"

subsection \<open>Cleanup (\<open>SoEWorld.generate_output\<close>, the \<open>finally\<close> block)\<close>

text \<open>
  The file system, as far as \<open>os.unlink\<close> sees it: the paths that exist, and among them
  those that cannot be removed (held open elsewhere, or protected). \<open>os.unlink(None)\<close>
  raises \<open>TypeError\<close>, a missing path \<open>FileNotFoundError\<close>, a protected one
  \<open>PermissionError\<close>.
\<close>

record file_system =
  files :: "string set"
  locked :: "string set"

definition unlink :: "string option \<Rightarrow> file_system \<Rightarrow> py_error + file_system" where
  "unlink path fs =
     (case path of
        None \<Rightarrow> Inl TypeError
      | Some p \<Rightarrow>
          if p \<notin> files fs then Inl FileNotFoundError
          else if p \<in> locked fs then Inl PermissionError
          else Inr (fs\<lparr>files := files fs - {p}\<rparr>))"

text \<open>\<open>out_file[:-4]+'_SPOILER.log'\<close>\<close>

definition spoiler_log :: "string \<Rightarrow> string" where
  "spoiler_log out_file = take (length out_file - 4) out_file @ ''_SPOILER.log''"

text \<open>
  The inner \<open>try\<close> block: three calls in sequence, the first exception ends the block.
  The result is the exception (or normal completion) and the file system reached.
\<close>

definition cleanup_try ::
  "string option \<Rightarrow> string option \<Rightarrow> file_system \<Rightarrow> (py_error + unit) \<times> file_system" where
  "cleanup_try placement_file out_file fs =
     (case unlink placement_file fs of
        Inl e \<Rightarrow> (Inl e, fs)
      | Inr fs1 \<Rightarrow>
          (case unlink out_file fs1 of
             Inl e \<Rightarrow> (Inl e, fs1)
           | Inr fs2 \<Rightarrow>
               (case out_file of
                  None \<Rightarrow> (Inl TypeError, fs2)
                | Some out \<Rightarrow>
                    (case unlink (Some (spoiler_log out)) fs2 of
                       Inl e \<Rightarrow> (Inl e, fs2)
                     | Inr fs3 \<Rightarrow> (Inr (), fs3)))))"

text \<open>\<open>except: pass\<close> catches every exception of the block and completes normally.\<close>

definition except_pass :: "(py_error + unit) \<times> file_system \<Rightarrow> (py_error + unit) \<times> file_system" where
  "except_pass r = (Inr (), snd r)"

text \<open>
  \<open>try: ... except: raise finally: ...\<close>. The body of the \<open>try\<close> (placement file, native
  build, packaging) calls code outside this module; what the \<open>finally\<close> block sees of it
  is its outcome \<open>body_result\<close>, the values of the local variables \<open>placement_file\<close> and
  \<open>out_file\<close> (\<open>None\<close> until assigned) and the file system it left. \<open>except: raise\<close>
  re-raises the same exception. An exception leaving the \<open>finally\<close> block would replace
  the pending outcome; otherwise the pending outcome stands.
\<close>

definition generate_output_finally ::
  "py_error + unit \<Rightarrow> string option \<Rightarrow> string option \<Rightarrow> file_system \<Rightarrow>
     (py_error + unit) \<times> file_system" where
  "generate_output_finally body_result placement_file out_file fs =
     (case except_pass (cleanup_try placement_file out_file fs) of
        (Inl e, fs') \<Rightarrow> (Inl e, fs')
      | (Inr u, fs') \<Rightarrow> (body_result, fs'))"

text \<open>A path that \<open>os.unlink\<close> can remove.\<close>

definition deletable :: "file_system \<Rightarrow> string \<Rightarrow> bool" where
  "deletable fs p = (p \<in> files fs \<and> p \<notin> locked fs)"

subsection \<open>Engine objects (\<open>Item\<close>, \<open>Location\<close>, \<open>Entrance\<close>, the multiworld)\<close>

text \<open>
  Modelled from the spec: the classes and helpers of the generic engine (\<open>BaseClasses\<close>,
  \<open>generic.Rules\<close>) that this module calls. An item has a name, the advancement flag, an
  optional numeric code and an owning player. A location has its owning player, name and
  optional address, an access rule (a predicate on the collection state, initially always
  true), an item filter (initially accepting every item), the item it holds, and the
  locked and event flags. A filter is a Python function: it returns a truth value or
  raises. The state type \<open>'st\<close> is the engine's collection state, seen through two
  oracles: \<open>has state name player\<close> for \<open>state.has\<close> and
  \<open>soe_has state progress player count\<close> for the logic mixin's \<open>state._soe_has\<close>.
\<close>

record ap_item =
  i_name :: string
  i_advancement :: bool
  i_code :: "int option"
  i_player :: int

record 'st ap_location =
  l_player :: int
  l_name :: string
  l_address :: "int option"
  l_access_rule :: "'st \<Rightarrow> bool"
  l_item_rule :: "ap_item \<Rightarrow> py_error + bool"
  l_item :: "ap_item option"
  l_locked :: bool
  l_event :: bool

record 'st ap_entrance =
  e_player :: int
  e_name :: string
  e_access_rule :: "'st \<Rightarrow> bool"

text \<open>
  The multiworld, as far as this module touches it: the locations and the entrances of
  all regions in the order of \<open>world.regions\<close>, and the completion conditions by player.
\<close>

record 'st multiworld =
  world_locations :: "'st ap_location list"
  world_entrances :: "'st ap_entrance list"
  completion_condition :: "int \<rightharpoonup> ('st \<Rightarrow> bool)"

text \<open>\<open>SoEItem(name, advancement, code, player)\<close> and \<open>SoELocation(player, name, address, parent)\<close>.\<close>

definition SoEItem :: "string \<Rightarrow> bool \<Rightarrow> int option \<Rightarrow> int \<Rightarrow> ap_item" where
  "SoEItem name advancement code player =
     \<lparr>i_name = name, i_advancement = advancement, i_code = code, i_player = player\<rparr>"

definition SoELocation :: "int \<Rightarrow> string \<Rightarrow> int option \<Rightarrow> 'st ap_location" where
  "SoELocation player name address =
     \<lparr>l_player = player, l_name = name, l_address = address,
      l_access_rule = (\<lambda>state. True), l_item_rule = (\<lambda>item. Inr True),
      l_item = None, l_locked = False, l_event = False\<rparr>"

text \<open>
  \<open>world.get_location(name, player)\<close>: the first location of that name and player;
  \<open>KeyError\<close> when there is none. The caller then changes the object it got: that is
  \<open>modify_location\<close>, which applies a change (one that may raise) to the first match.
\<close>

fun get_location :: "string \<Rightarrow> int \<Rightarrow> 'st ap_location list \<Rightarrow> py_error + 'st ap_location" where
  "get_location name player [] = Inl KeyError"
| "get_location name player (l # ls) =
     (if l_name l = name \<and> l_player l = player then Inr l else get_location name player ls)"

fun modify_location ::
  "string \<Rightarrow> int \<Rightarrow> ('st ap_location \<Rightarrow> py_error + 'st ap_location) \<Rightarrow> 'st ap_location list \<Rightarrow>
     py_error + 'st ap_location list" where
  "modify_location name player f [] = Inl KeyError"
| "modify_location name player f (l # ls) =
     (if l_name l = name \<and> l_player l = player
      then (case f l of Inl e \<Rightarrow> Inl e | Inr l' \<Rightarrow> Inr (l' # ls))
      else (case modify_location name player f ls of
              Inl e \<Rightarrow> Inl e
            | Inr ls' \<Rightarrow> Inr (l # ls')))"

fun modify_entrance ::
  "string \<Rightarrow> int \<Rightarrow> ('st ap_entrance \<Rightarrow> 'st ap_entrance) \<Rightarrow> 'st ap_entrance list \<Rightarrow>
     py_error + 'st ap_entrance list" where
  "modify_entrance name player f [] = Inl KeyError"
| "modify_entrance name player f (en # ens) =
     (if e_name en = name \<and> e_player en = player then Inr (f en # ens)
      else (case modify_entrance name player f ens of
              Inl e \<Rightarrow> Inl e
            | Inr ens' \<Rightarrow> Inr (en # ens')))"

text \<open>
  \<open>set_rule(spot, rule)\<close> replaces the access rule. \<open>add_item_rule(spot, rule)\<close> adds a
  filter to the one in place: the new filter is \<open>rule(item) and old_rule(item)\<close>, with
  Python's \<open>and\<close> (the old filter is not called when the new one rejects).
  \<open>place_locked_item(item)\<close> puts the item at the location and locks it; it raises
  \<open>Exception\<close> on a location that holds an item already.
\<close>

definition set_rule :: "('st \<Rightarrow> bool) \<Rightarrow> 'st ap_location \<Rightarrow> 'st ap_location" where
  "set_rule new_rule spot = spot\<lparr>l_access_rule := new_rule\<rparr>"

definition add_item_rule ::
  "(ap_item \<Rightarrow> py_error + bool) \<Rightarrow> 'st ap_location \<Rightarrow> 'st ap_location" where
  "add_item_rule new_rule spot =
     spot\<lparr>l_item_rule :=
       (\<lambda>item. case new_rule item of
                  Inl e \<Rightarrow> Inl e
                | Inr b \<Rightarrow> if b then l_item_rule spot item else Inr False)\<rparr>"

definition place_locked_item :: "ap_item \<Rightarrow> 'st ap_location \<Rightarrow> py_error + 'st ap_location" where
  "place_locked_item item spot =
     (if l_item spot \<noteq> None then Inl Exception
      else Inr (spot\<lparr>l_item := Some item, l_event := i_advancement item, l_locked := True\<rparr>))"
subsection \<open>World setup (\<open>create_event\<close>, \<open>create_regions\<close>, \<open>set_rules\<close>, \<open>generate_basic\<close>)\<close>

text \<open>\<open>create_event\<close>: an event item is an advancement item without code.\<close>

definition create_event :: "int \<Rightarrow> string \<Rightarrow> ap_item" where
  "create_event player event = SoEItem event True None player"

text \<open>
  The list comprehension of \<open>create_regions\<close>:
  \<open>SoELocation(self.player, loc.name, self.location_name_to_id[loc.name], r)\<close> for each
  catalog location; a name that is no key of \<open>location_name_to_id\<close> raises \<open>KeyError\<close>.
\<close>

fun region_locations ::
  "int \<Rightarrow> (string \<rightharpoonup> int option) \<Rightarrow> raw_location list \<Rightarrow> py_error + 'st ap_location list" where
  "region_locations player name_to_id [] = Inr []"
| "region_locations player name_to_id (loc # locs) =
     (case name_to_id (loc_name loc) of
        None \<Rightarrow> Inl KeyError
      | Some address \<Rightarrow>
          (case region_locations player name_to_id locs of
             Inl e \<Rightarrow> Inl e
           | Inr ls \<Rightarrow> Inr (SoELocation player (loc_name loc) address # ls)))"

text \<open>
  \<open>create_regions\<close>: the region \<open>Menu\<close> with its exit \<open>New Game\<close>, then the region
  \<open>Ingame\<close> with one location per catalog location and, appended, the location \<open>Done\<close>
  without address. Both regions go to the end of \<open>world.regions\<close>. Connecting the
  entrance to \<open>Ingame\<close> changes neither a rule nor a location.
\<close>

definition create_regions ::
  "int \<Rightarrow> (string \<rightharpoonup> int option) \<Rightarrow> raw_location list \<Rightarrow> 'st multiworld \<Rightarrow>
     py_error + 'st multiworld" where
  "create_regions player name_to_id locs world =
     (case region_locations player name_to_id locs of
        Inl e \<Rightarrow> Inl e
      | Inr ls \<Rightarrow>
          Inr (world\<lparr>world_locations :=
                        world_locations world @ ls @ [SoELocation player ''Done'' None],
                     world_entrances :=
                        world_entrances world @
                        [\<lparr>e_player = player, e_name = ''New Game'',
                          e_access_rule = (\<lambda>state. True)\<rparr>]\<rparr>))"

text \<open>
  \<open>make_item_type_limit_rule\<close>: Python's \<open>or\<close> does not look the item up when it belongs
  to another player; \<open>self.item_id_to_raw[item.code]\<close> raises \<open>KeyError\<close> when the code
  (\<open>None\<close> included) is no key.
\<close>

definition make_item_type_limit_rule ::
  "int \<Rightarrow> (int \<rightharpoonup> raw_item) \<Rightarrow> int \<Rightarrow> (ap_item \<Rightarrow> py_error + bool)" where
  "make_item_type_limit_rule player item_id_to_raw ty =
     (\<lambda>item. if i_player item \<noteq> player then Inr True
             else (case i_code item of
                     None \<Rightarrow> Inl KeyError
                   | Some c \<Rightarrow>
                       (case item_id_to_raw c of
                          None \<Rightarrow> Inl KeyError
                        | Some raw \<Rightarrow> Inr (item_type raw = ty))))"

text \<open>
  The body of the loop of \<open>set_rules\<close>, once the location is looked up: set its access
  rule, and in restricted mode add the filter of the catalog location's category.
\<close>

definition set_catalog_rules ::
  "('st \<Rightarrow> int \<Rightarrow> int \<Rightarrow> int \<Rightarrow> bool) \<Rightarrow> int \<Rightarrow> bool \<Rightarrow> (int \<rightharpoonup> raw_item) \<Rightarrow> raw_location \<Rightarrow>
     'st ap_location \<Rightarrow> 'st ap_location" where
  "set_catalog_rules soe_has player restrict_item_placement item_id_to_raw loc location =
     (if restrict_item_placement
      then add_item_rule (make_item_type_limit_rule player item_id_to_raw (loc_type loc))
             (set_rule (make_rule soe_has player (loc_requires loc)) location)
      else set_rule (make_rule soe_has player (loc_requires loc)) location)"

text \<open>The loop itself: each catalog location is looked up by name.\<close>

fun set_location_rules ::
  "('st \<Rightarrow> int \<Rightarrow> int \<Rightarrow> int \<Rightarrow> bool) \<Rightarrow> int \<Rightarrow> bool \<Rightarrow> (int \<rightharpoonup> raw_item) \<Rightarrow> raw_location list \<Rightarrow>
     'st ap_location list \<Rightarrow> py_error + 'st ap_location list" where
  "set_location_rules soe_has player restrict_item_placement item_id_to_raw [] ls = Inr ls"
| "set_location_rules soe_has player restrict_item_placement item_id_to_raw (loc # locs) ls =
     (case modify_location (loc_name loc) player
             (\<lambda>location.
                Inr (set_catalog_rules soe_has player restrict_item_placement item_id_to_raw
                       loc location))
             ls of
        Inl e \<Rightarrow> Inl e
      | Inr ls' \<Rightarrow>
          set_location_rules soe_has player restrict_item_placement item_id_to_raw locs ls')"

text \<open>
  \<open>set_rules\<close>. Modelled from the spec: \<open>state._soe_has(progress, world, player)\<close> without
  count asks for count 1.
\<close>

definition set_rules ::
  "('st \<Rightarrow> string \<Rightarrow> int \<Rightarrow> bool) \<Rightarrow> ('st \<Rightarrow> int \<Rightarrow> int \<Rightarrow> int \<Rightarrow> bool) \<Rightarrow> pyevermizer \<Rightarrow> int \<Rightarrow> bool \<Rightarrow>
     (int \<rightharpoonup> raw_item) \<Rightarrow> raw_location list \<Rightarrow> 'st multiworld \<Rightarrow> py_error + 'st multiworld" where
  "set_rules has soe_has pe player restrict_item_placement item_id_to_raw locs world =
     (case modify_location ''Done'' player
             (\<lambda>location.
                Inr (set_rule (\<lambda>state. soe_has state (P_FINAL_BOSS pe) player 1) location))
             (world_locations world) of
        Inl e \<Rightarrow> Inl e
      | Inr ls1 \<Rightarrow>
          (case modify_entrance ''New Game'' player
                  (\<lambda>en. en\<lparr>e_access_rule := (\<lambda>state. True)\<rparr>) (world_entrances world) of
             Inl e \<Rightarrow> Inl e
           | Inr ens \<Rightarrow>
               (case set_location_rules soe_has player restrict_item_placement item_id_to_raw
                       locs ls1 of
                  Inl e \<Rightarrow> Inl e
                | Inr ls2 \<Rightarrow>
                    Inr (world\<lparr>world_locations := ls2, world_entrances := ens,
                               completion_condition :=
                                 (completion_condition world)
                                   (player \<mapsto> (\<lambda>state. has state ''Victory'' player))\<rparr>))))"

text \<open>
  \<open>generate_basic\<close>: the event \<open>Victory\<close> is placed, locked, at \<open>Done\<close>; the value drawn by
  \<open>random.randint(0, 2**16-1)\<close> is the parameter \<open>draw\<close>, returned as \<open>evermizer_seed\<close>.
\<close>

definition generate_basic ::
  "int \<Rightarrow> int \<Rightarrow> 'st multiworld \<Rightarrow> py_error + 'st multiworld \<times> int" where
  "generate_basic player draw world =
     (case modify_location ''Done'' player (place_locked_item (create_event player ''Victory''))
             (world_locations world) of
        Inl e \<Rightarrow> Inl e
      | Inr ls \<Rightarrow> Inr (world\<lparr>world_locations := ls\<rparr>, draw))"

text \<open>
  Vocabulary for the properties: the native category of a candidate item is the type of
  the catalog item its code stands for; an item without code, or with a code that is no
  key of \<open>item_id_to_raw\<close>, has none.
\<close>

definition native_category :: "(int \<rightharpoonup> raw_item) \<Rightarrow> ap_item \<Rightarrow> int option" where
  "native_category item_id_to_raw item =
     (case i_code item of
        None \<Rightarrow> None
      | Some c \<Rightarrow> (case item_id_to_raw c of None \<Rightarrow> None | Some raw \<Rightarrow> Some (item_type raw)))"
subsection \<open>Placement file (\<open>SoEWorld.generate_output\<close>, the loop that writes it)\<close>

text \<open>
  The loop over \<open>filter(lambda l: l.player == self.player, self.world.get_locations())\<close>,
  as the list of the lines it writes, in order. \<open>location.item\<close> is \<open>None\<close> at a location
  that holds nothing, and \<open>item.code\<close> then raises \<open>AttributeError\<close>; an event item (no
  code) is skipped before anything is looked up; \<open>self.location_id_to_raw[location.address]\<close>
  and \<open>self.item_id_to_raw[item.code]\<close> raise \<open>KeyError\<close> on a key that is not there
  (\<open>None\<close> included). The f-strings render integers with \<open>str\<close>; the lines are ASCII, so
  \<open>line.encode('utf-8')\<close> is the line itself.
\<close>

fun placement_lines ::
  "pyevermizer \<Rightarrow> int \<Rightarrow> (int \<rightharpoonup> raw_location) \<Rightarrow> (int \<rightharpoonup> raw_item) \<Rightarrow> 'st ap_location list \<Rightarrow>
     py_error + string list" where
  "placement_lines pe player location_id_to_raw item_id_to_raw [] = Inr []"
| "placement_lines pe player location_id_to_raw item_id_to_raw (location # rest) =
     (if l_player location \<noteq> player
      then placement_lines pe player location_id_to_raw item_id_to_raw rest
      else
        (case l_item location of
           None \<Rightarrow> Inl AttributeError
         | Some item \<Rightarrow>
             (case i_code item of
                None \<Rightarrow> placement_lines pe player location_id_to_raw item_id_to_raw rest
              | Some code \<Rightarrow>
                  (case (case l_address location of
                           None \<Rightarrow> None
                         | Some address \<Rightarrow> location_id_to_raw address) of
                     None \<Rightarrow> Inl KeyError
                   | Some loc \<Rightarrow>
                       if i_player item \<noteq> player
                       then
                         (case placement_lines pe player location_id_to_raw item_id_to_raw rest of
                            Inl e \<Rightarrow> Inl e
                          | Inr ls \<Rightarrow>
                              Inr ((str_int (loc_type loc) @ '','' @ str_int (loc_index loc)
                                    @ '':'' @ str_int (CHECK_NONE pe) @ '','' @ str_int code
                                    @ '','' @ str_int (i_player item) @ [CHR 0x0A]) # ls))
                       else
                         (case item_id_to_raw code of
                            None \<Rightarrow> Inl KeyError
                          | Some raw \<Rightarrow>
                              (case placement_lines pe player location_id_to_raw
                                      item_id_to_raw rest of
                                 Inl e \<Rightarrow> Inl e
                               | Inr ls \<Rightarrow>
                                   Inr ((str_int (loc_type loc) @ '','' @ str_int (loc_index loc)
                                         @ '':'' @ str_int (item_type raw) @ '',''
                                         @ str_int (item_index raw) @ [CHR 0x0A]) # ls)))))))"

text \<open>The content of the placement file once the loop is through.\<close>

definition write_placement ::
  "pyevermizer \<Rightarrow> int \<Rightarrow> (int \<rightharpoonup> raw_location) \<Rightarrow> (int \<rightharpoonup> raw_item) \<Rightarrow> 'st ap_location list \<Rightarrow>
     py_error + string" where
  "write_placement pe player location_id_to_raw item_id_to_raw locs =
     (case placement_lines pe player location_id_to_raw item_id_to_raw locs of
        Inl e \<Rightarrow> Inl e
      | Inr ls \<Rightarrow> Inr (concat ls))"

text \<open>
  Vocabulary for the properties. The two record formats of the placement file, from
  the numbers they show. The locations that get a line: owned by the player, holding an
  item with a code. Modelled from the spec: \<open>resolved\<close>, the state in which the output
  pipeline is to run (every location's item is resolved before it runs): each location of
  the player holds an item, and where that item has a code, the location's address is a
  key of \<open>location_id_to_raw\<close> and, for an item of the player, the code is a key of
  \<open>item_id_to_raw\<close>.
\<close>

definition same_player_record :: "int \<Rightarrow> int \<Rightarrow> int \<Rightarrow> int \<Rightarrow> string" where
  "same_player_record loc_category loc_number item_category item_number =
     str_int loc_category @ '','' @ str_int loc_number @ '':'' @ str_int item_category @ '',''
     @ str_int item_number @ [CHR 0x0A]"

definition foreign_record :: "int \<Rightarrow> int \<Rightarrow> int \<Rightarrow> int \<Rightarrow> int \<Rightarrow> string" where
  "foreign_record loc_category loc_number none_category item_code owning_player =
     str_int loc_category @ '','' @ str_int loc_number @ '':'' @ str_int none_category @ '',''
     @ str_int item_code @ '','' @ str_int owning_player @ [CHR 0x0A]"

definition gets_line :: "int \<Rightarrow> 'st ap_location \<Rightarrow> bool" where
  "gets_line player location =
     (l_player location = player \<and>
      (case l_item location of None \<Rightarrow> False | Some item \<Rightarrow> i_code item \<noteq> None))"

definition resolved ::
  "int \<Rightarrow> (int \<rightharpoonup> raw_location) \<Rightarrow> (int \<rightharpoonup> raw_item) \<Rightarrow> 'st ap_location list \<Rightarrow> bool" where
  "resolved player location_id_to_raw item_id_to_raw locs =
     list_all
       (\<lambda>location.
          l_player location \<noteq> player \<or>
          (case l_item location of
             None \<Rightarrow> False
           | Some item \<Rightarrow>
               (case i_code item of
                  None \<Rightarrow> True
                | Some code \<Rightarrow>
                    (case l_address location of
                       None \<Rightarrow> False
                     | Some address \<Rightarrow> location_id_to_raw address \<noteq> None) \<and>
                    (i_player item \<noteq> player \<or> item_id_to_raw code \<noteq> None))))
       locs"

text \<open>The line the claims expect for a location, from the tables.\<close>

definition expected_record ::
  "pyevermizer \<Rightarrow> int \<Rightarrow> (int \<rightharpoonup> raw_location) \<Rightarrow> (int \<rightharpoonup> raw_item) \<Rightarrow> 'st ap_location \<Rightarrow>
     string \<Rightarrow> bool" where
  "expected_record pe player location_id_to_raw item_id_to_raw location line =
     (case l_item location of
        None \<Rightarrow> False
      | Some item \<Rightarrow>
          (case (i_code item, l_address location) of
             (Some code, Some address) \<Rightarrow>
               (case location_id_to_raw address of
                  None \<Rightarrow> False
                | Some loc \<Rightarrow>
                    if i_player item = player
                    then (case item_id_to_raw code of
                            None \<Rightarrow> False
                          | Some raw \<Rightarrow>
                              line = same_player_record (loc_type loc) (loc_index loc)
                                       (item_type raw) (item_index raw))
                    else line = foreign_record (loc_type loc) (loc_index loc) (CHECK_NONE pe)
                                  code (i_player item))
           | _ \<Rightarrow> False))"
section \<open>Verified properties\<close>

subsection \<open>Numeric ids\<close>














subsection \<open>Catalog mappings\<close>









subsection \<open>Rule compiler\<close>

lemma rule_iff_all:
  "rule soe_has player requires state =
     (\<forall>(count, progress) \<in> set requires. soe_has state progress player count)"
  by (induction requires) (auto split: if_splits)

text \<open>
  Claim C4. For every requirement list, the compiled access rule is true on a state
  exactly when the oracle \<open>has(token, count)\<close> holds for every \<open>(count, token)\<close> pair of
  the list; the empty requirement list compiles to the predicate that is true on every
  state.
\<close>

theorem make_rule_iff_all_requirements:
  "(make_rule soe_has player requires state \<longleftrightarrow>
      (\<forall>(count, progress) \<in> set requires. soe_has state progress player count))
   \<and> make_rule soe_has player [] state"
  by (simp add: make_rule_def rule_iff_all)

theorem make_rule_iff_all_requirements_witness:
  "make_rule (\<lambda>st progress player count. count \<le> st progress) 1 [(2, 5), (1, 7)]
     (\<lambda>t. if t = (5::int) then (2::int) else 1)
   \<and> \<not> make_rule (\<lambda>st progress player count. count \<le> st progress) 1 [(2, 5), (3, 7)]
     (\<lambda>t. if t = (5::int) then (2::int) else 1)"
  using make_rule_iff_all_requirements
    [of "\<lambda>st progress player count. count \<le> st progress" 1 "[(2, 5), (1, 7)]"
        "\<lambda>t. if t = (5::int) then (2::int) else 1"]
    make_rule_iff_all_requirements
    [of "\<lambda>st progress player count. count \<le> st progress" 1 "[(2, 5), (3, 7)]"
        "\<lambda>t. if t = (5::int) then (2::int) else 1"]
  by simp

subsection \<open>Name finalization\<close>

lemma char_len_pos: "encode_char c \<noteq> None \<Longrightarrow> 1 \<le> char_len c"
  by (auto simp: char_len_def encode_char_def split: if_splits)

lemma encode_utf8_encodable:
  "encodable s \<Longrightarrow> \<exists>bs. encode_utf8 s = Inr bs \<and> length bs = sum_list (map char_len s)"
  by (induction s) (auto simp: encodable_def char_len_def)

lemma encode_utf8_not_encodable:
  "\<not> encodable s \<Longrightarrow> encode_utf8 s = Inl UnicodeEncodeError"
proof (induction s)
  case Nil
  then show ?case by (simp add: encodable_def)
next
  case (Cons c s)
  show ?case
  proof (cases "encode_char c")
    case None
    then show ?thesis by simp
  next
    case (Some bs)
    with Cons.prems have "\<not> encodable s"
      by (auto simp: encodable_def)
    then have "encode_utf8 s = Inl UnicodeEncodeError"
      by (rule Cons.IH)
    with Some show ?thesis by simp
  qed
qed

lemma encode_utf8_Inr_encodable: "encode_utf8 s = Inr bs \<Longrightarrow> encodable s"
  using encode_utf8_not_encodable by fastforce

lemma sum_char_len_ge: "encodable s \<Longrightarrow> length s \<le> sum_list (map char_len s)"
proof (induction s)
  case Nil
  then show ?case by simp
next
  case (Cons c s)
  from Cons.prems have "encode_char c \<noteq> None" "encodable s"
    by (auto simp: encodable_def)
  then have "1 \<le> char_len c" "length s \<le> sum_list (map char_len s)"
    using Cons.IH char_len_pos by blast+
  then show ?case by simp
qed

lemma fits_iff:
  "fits_32_bytes s \<longleftrightarrow> encodable s \<and> sum_list (map char_len s) \<le> 32"
proof (cases "encodable s")
  case True
  then show ?thesis
    using encode_utf8_encodable [OF True] by (auto simp: fits_32_bytes_def)
next
  case False
  then show ?thesis
    by (simp add: fits_32_bytes_def encode_utf8_not_encodable)
qed

lemma encodable_prefix: "encodable s \<Longrightarrow> prefix p s \<Longrightarrow> encodable p"
  by (auto simp: encodable_def dest: set_mono_prefix)

lemma truncate_loop_longest:
  "encodable s \<Longrightarrow>
   \<exists>r. truncate_loop s = Some (Inr r) \<and> prefix r s \<and> fits_32_bytes r \<and>
       (\<forall>p. prefix p s \<and> fits_32_bytes p \<longrightarrow> length p \<le> length r)"
proof (induction s rule: rev_induct)
  case Nil
  have "truncate_loop [] = Some (Inr [])"
    by (subst truncate_loop.simps) simp
  then show ?case by (simp add: fits_32_bytes_def)
next
  case (snoc x xs)
  have enc_xs: "encodable xs"
    using snoc.prems by (simp add: encodable_def)
  obtain bs where bs: "encode_utf8 (xs @ [x]) = Inr bs"
    "length bs = sum_list (map char_len (xs @ [x]))"
    using encode_utf8_encodable [OF snoc.prems] by blast
  show ?case
  proof (cases "32 < length bs")
    case True
    have step: "truncate_loop (xs @ [x]) = truncate_loop xs"
      using bs True by (subst truncate_loop.simps) simp
    obtain r where r: "truncate_loop xs = Some (Inr r)" "prefix r xs" "fits_32_bytes r"
      "\<forall>p. prefix p xs \<and> fits_32_bytes p \<longrightarrow> length p \<le> length r"
      using snoc.IH [OF enc_xs] by blast
    have not_fit: "\<not> fits_32_bytes (xs @ [x])"
      using bs True by (simp add: fits_32_bytes_def)
    have "\<forall>p. prefix p (xs @ [x]) \<and> fits_32_bytes p \<longrightarrow> length p \<le> length r"
      using r(4) not_fit by (auto simp: prefix_snoc)
    with r step show ?thesis
      by (auto simp: prefix_snoc)
  next
    case False
    have "truncate_loop (xs @ [x]) = Some (Inr (xs @ [x]))"
      using bs False by (subst truncate_loop.simps) simp
    moreover have "fits_32_bytes (xs @ [x])"
      using bs False by (simp add: fits_32_bytes_def)
    ultimately show ?thesis
      by (auto dest: prefix_length_le)
  qed
qed

lemma truncate_loop_returns:
  "\<exists>res. truncate_loop s = Some res"
proof (cases "encodable s")
  case True
  then show ?thesis using truncate_loop_longest by blast
next
  case False
  then have "truncate_loop s = Some (Inl UnicodeEncodeError)"
    by (subst truncate_loop.simps) (simp add: encode_utf8_not_encodable)
  then show ?thesis by blast
qed

lemma fits_length_le: "fits_32_bytes p \<Longrightarrow> length p \<le> 32"
  using sum_char_len_ge [of p] by (auto simp: fits_iff)

lemma two_byte_char_len: "0x80 \<le> c \<Longrightarrow> c < 0x800 \<Longrightarrow> char_len c = 2"
  by (simp add: char_len_def encode_char_def)

lemma two_byte_sum:
  "\<forall>c \<in> set s. 0x80 \<le> c \<and> c < 0x800 \<Longrightarrow> sum_list (map char_len s) = 2 * length s"
  by (induction s) (auto simp: two_byte_char_len)

lemma two_byte_encodable: "\<forall>c \<in> set s. 0x80 \<le> c \<and> c < 0x800 \<Longrightarrow> encodable s"
  by (auto simp: encodable_def encode_char_def)

lemma two_byte_fits:
  "\<forall>c \<in> set s. 0x80 \<le> c \<and> c < 0x800 \<Longrightarrow> fits_32_bytes s \<longleftrightarrow> length s \<le> 16"
  by (auto simp: fits_iff two_byte_sum two_byte_encodable)

lemma finalize_name_longest:
  assumes "encodable (take 32 player_name)"
  shows "\<exists>r. finalize_name player_name = Some (Inr r) \<and> prefix r player_name \<and>
           fits_32_bytes r \<and>
           (\<forall>p. prefix p player_name \<and> fits_32_bytes p \<longrightarrow> length p \<le> length r)"
proof -
  obtain r where r: "truncate_loop (take 32 player_name) = Some (Inr r)"
    "prefix r (take 32 player_name)" "fits_32_bytes r"
    "\<forall>p. prefix p (take 32 player_name) \<and> fits_32_bytes p \<longrightarrow> length p \<le> length r"
    using truncate_loop_longest [OF assms] by blast
  have "prefix r player_name"
    using r(2) take_is_prefix prefix_order.trans by blast
  moreover have "length p \<le> length r" if p: "prefix p player_name" "fits_32_bytes p" for p
  proof -
    have "length p \<le> 32" using p(2) by (rule fits_length_le)
    then have "prefix p (take 32 player_name)"
      using p(1) by (auto simp: prefix_def)
    then show ?thesis using r(4) p(2) by blast
  qed
  ultimately show ?thesis
    using r(1,3) by (auto simp: finalize_name_def)
qed

lemma finalize_name_two_bytes:
  assumes len: "length player_name = 20"
    and two: "\<forall>c \<in> set player_name. 0x80 \<le> c \<and> c < 0x800"
  shows "finalize_name player_name = Some (Inr (take 16 player_name))"
proof -
  have "encodable (take 32 player_name)"
    using two by (auto intro!: two_byte_encodable dest: in_set_takeD)
  then obtain r where r: "finalize_name player_name = Some (Inr r)" "prefix r player_name"
    "fits_32_bytes r"
    "\<forall>p. prefix p player_name \<and> fits_32_bytes p \<longrightarrow> length p \<le> length r"
    using finalize_name_longest by blast
  have two_r: "\<forall>c \<in> set r. 0x80 \<le> c \<and> c < 0x800"
    using two r(2) by (auto dest: set_mono_prefix)
  have upper: "length r \<le> 16"
    using r(3) two_byte_fits [OF two_r] by simp
  have two_t: "\<forall>c \<in> set (take 16 player_name). 0x80 \<le> c \<and> c < 0x800"
    using two by (auto dest: in_set_takeD)
  have "fits_32_bytes (take 16 player_name)"
    using two_byte_fits [OF two_t] by simp
  then have "length (take 16 player_name) \<le> length r"
    using r(4) take_is_prefix by blast
  then have "length r = 16"
    using upper len by simp
  moreover have "r = take (length r) player_name"
    using r(2) by (auto simp: prefix_def)
  ultimately show ?thesis
    using r(1) by simp
qed

text \<open>
  Claim C5, amended. Name finalization maps every display name whose first 32 characters
  \<open>encode\<close> accepts (no lone surrogate among them) to the longest prefix (in characters)
  of the name whose UTF-8 encoding has at most 32 bytes: the result is a prefix of the
  name, it fits, and no prefix that fits is longer. A name of 20 characters of two bytes
  each is cut to its first 16 characters.
\<close>

theorem finalize_name_longest_prefix:
  assumes "encodable (take 32 player_name)"
  shows "(\<exists>r. finalize_name player_name = Some (Inr r) \<and> prefix r player_name \<and>
            fits_32_bytes r \<and>
            (\<forall>p. prefix p player_name \<and> fits_32_bytes p \<longrightarrow> length p \<le> length r))
         \<and> (length player_name = 20 \<and> (\<forall>c \<in> set player_name. 0x80 \<le> c \<and> c < 0x800) \<longrightarrow>
              finalize_name player_name = Some (Inr (take 16 player_name)))"
  using finalize_name_longest [OF assms] finalize_name_two_bytes by blast

theorem finalize_name_longest_prefix_witness:
  "encodable (take 32 (replicate 20 0xE9))
   \<and> finalize_name (replicate 20 0xE9) = Some (Inr (replicate 16 0xE9))"
proof -
  have enc: "encodable (take 32 (replicate 20 0xE9))"
    by (simp add: encodable_def encode_char_def)
  have len: "length (replicate 20 (0xE9::nat)) = 20"
    by simp
  have two: "\<forall>c \<in> set (replicate 20 (0xE9::nat)). 0x80 \<le> c \<and> c < 0x800"
    by simp
  have "length (replicate 20 (0xE9::nat)) = 20 \<and>
        (\<forall>c \<in> set (replicate 20 (0xE9::nat)). 0x80 \<le> c \<and> c < 0x800) \<longrightarrow>
        finalize_name (replicate 20 0xE9) = Some (Inr (take 16 (replicate 20 0xE9)))"
    using finalize_name_longest_prefix [OF enc] by (rule conjunct2)
  with len two
  have "finalize_name (replicate 20 0xE9) = Some (Inr (take 16 (replicate 20 0xE9)))"
    by blast
  moreover have "take 16 (replicate 20 (0xE9::nat)) = replicate 16 0xE9"
    by simp
  ultimately show ?thesis
    using enc by simp
qed

text \<open>
  The claim as stated for every display name fails: on sixteen two-byte characters
  followed by a lone surrogate, \<open>encode\<close> raises on the first loop test, and no name is
  produced, although the prefix of the first sixteen characters fits (32 bytes).
\<close>

theorem finalize_name_surrogate_counterexample:
  "finalize_name (replicate 16 0xE9 @ [0xD800]) = Some (Inl UnicodeEncodeError)
   \<and> prefix (replicate 16 0xE9) (replicate 16 0xE9 @ [0xD800::nat])
   \<and> fits_32_bytes (replicate 16 0xE9)
   \<and> length (replicate 16 (0xE9::nat)) = 16"
proof -
  have "encode_char 0xD800 = None"
    by (simp add: encode_char_def)
  then have "\<not> encodable (replicate 16 0xE9 @ [0xD800])"
    by (simp add: encodable_def)
  then have "truncate_loop (replicate 16 0xE9 @ [0xD800]) = Some (Inl UnicodeEncodeError)"
    by (subst truncate_loop.simps) (simp add: encode_utf8_not_encodable)
  then have "finalize_name (replicate 16 0xE9 @ [0xD800]) = Some (Inl UnicodeEncodeError)"
    by (simp add: finalize_name_def)
  moreover have "fits_32_bytes (replicate 16 (0xE9::nat))"
    using two_byte_fits [of "replicate 16 (0xE9::nat)"] by simp
  ultimately show ?thesis
    by simp
qed

text \<open>
  Claim C10. The truncation loop returns on every input string: either \<open>encode\<close> raises
  on the first test (the string is not encodable), or the loop exits with a string whose
  encoding has at most 32 bytes. Whenever the loop test holds the string is non-empty, so
  the iteration removes exactly one character; and the empty string fits (0 bytes).
\<close>

theorem truncate_loop_terminates:
  "(\<exists>res. truncate_loop s = Some res \<and>
       (case res of Inl e \<Rightarrow> \<not> encodable s | Inr r \<Rightarrow> fits_32_bytes r \<and> prefix r s))
   \<and> (case encode_utf8 s of Inl e \<Rightarrow> True
       | Inr bs \<Rightarrow> 32 < length bs \<longrightarrow> Suc (length (butlast s)) = length s)
   \<and> encode_utf8 [] = Inr [] \<and> fits_32_bytes []"
proof -
  have "\<exists>res. truncate_loop s = Some res \<and>
       (case res of Inl e \<Rightarrow> \<not> encodable s | Inr r \<Rightarrow> fits_32_bytes r \<and> prefix r s)"
  proof (cases "encodable s")
    case True
    then show ?thesis using truncate_loop_longest [OF True] by auto
  next
    case False
    then have "truncate_loop s = Some (Inl UnicodeEncodeError)"
      by (subst truncate_loop.simps) (simp add: encode_utf8_not_encodable)
    with False show ?thesis by simp
  qed
  moreover have "case encode_utf8 s of Inl e \<Rightarrow> True
       | Inr bs \<Rightarrow> 32 < length bs \<longrightarrow> Suc (length (butlast s)) = length s"
    by (cases s) (auto split: sum.splits)
  ultimately show ?thesis
    by (simp add: fits_32_bytes_def)
qed

theorem truncate_loop_terminates_witness:
  "truncate_loop [0x1F600, 0x1F600, 0x1F600, 0x1F600, 0x1F600, 0x1F600, 0x1F600, 0x1F600, 0x1F600]
     = Some (Inr [0x1F600, 0x1F600, 0x1F600, 0x1F600, 0x1F600, 0x1F600, 0x1F600, 0x1F600])
   \<and> fits_32_bytes [0x1F600, 0x1F600, 0x1F600, 0x1F600, 0x1F600, 0x1F600, 0x1F600, 0x1F600]"
proof -
  have last: "truncate_loop [0x1F600, 0x1F600, 0x1F600, 0x1F600, 0x1F600, 0x1F600, 0x1F600, 0x1F600]
      = Some (Inr [0x1F600, 0x1F600, 0x1F600, 0x1F600, 0x1F600, 0x1F600, 0x1F600, 0x1F600])"
    by (subst truncate_loop.simps) (simp add: encode_char_def)
  have "truncate_loop [0x1F600, 0x1F600, 0x1F600, 0x1F600, 0x1F600, 0x1F600, 0x1F600, 0x1F600, 0x1F600]
      = truncate_loop [0x1F600, 0x1F600, 0x1F600, 0x1F600, 0x1F600, 0x1F600, 0x1F600, 0x1F600]"
    by (subst truncate_loop.simps) (simp add: encode_char_def)
  with last have run: "truncate_loop [0x1F600, 0x1F600, 0x1F600, 0x1F600, 0x1F600, 0x1F600, 0x1F600, 0x1F600, 0x1F600]
      = Some (Inr [0x1F600, 0x1F600, 0x1F600, 0x1F600, 0x1F600, 0x1F600, 0x1F600, 0x1F600])"
    by simp
  obtain res where res: "truncate_loop [0x1F600, 0x1F600, 0x1F600, 0x1F600, 0x1F600, 0x1F600, 0x1F600, 0x1F600, 0x1F600] = Some res"
    "case res of Inl e \<Rightarrow> \<not> encodable [0x1F600, 0x1F600, 0x1F600, 0x1F600, 0x1F600, 0x1F600, 0x1F600, 0x1F600, 0x1F600]
     | Inr r \<Rightarrow> fits_32_bytes r \<and> prefix r [0x1F600, 0x1F600, 0x1F600, 0x1F600, 0x1F600, 0x1F600, 0x1F600, 0x1F600, 0x1F600]"
    using truncate_loop_terminates [of "[0x1F600, 0x1F600, 0x1F600, 0x1F600, 0x1F600, 0x1F600, 0x1F600, 0x1F600, 0x1F600]"] by blast
  from res(1) run have "res = Inr [0x1F600, 0x1F600, 0x1F600, 0x1F600, 0x1F600, 0x1F600, 0x1F600, 0x1F600]"
    by simp
  with res(2) have "fits_32_bytes [0x1F600, 0x1F600, 0x1F600, 0x1F600, 0x1F600, 0x1F600, 0x1F600, 0x1F600]"
    by simp
  with run show ?thesis by blast
qed

subsection \<open>Connect-name table\<close>

lemma truncate_loop_Inr_encodable:
  "truncate_loop s = Some (Inr r) \<Longrightarrow> encodable s"
proof (rule ccontr)
  assume r: "truncate_loop s = Some (Inr r)" and "\<not> encodable s"
  then have "truncate_loop s = Some (Inl UnicodeEncodeError)"
    by (subst truncate_loop.simps) (simp add: encode_utf8_not_encodable)
  with r show False by simp
qed

lemma single_char_fits: "encodable [c] \<Longrightarrow> fits_32_bytes [c]"
  by (auto simp: fits_32_bytes_def encodable_def encode_char_def split: if_splits)

lemma finalize_name_empty: "finalize_name [] = Some (Inr [])"
  unfolding finalize_name_def by (subst truncate_loop.simps) simp

lemma finalize_name_nonempty:
  assumes fin: "finalize_name player_name = Some (Inr r)" and ne: "player_name \<noteq> []"
  shows "r \<noteq> []"
proof -
  have enc: "encodable (take 32 player_name)"
    using fin by (auto simp: finalize_name_def dest: truncate_loop_Inr_encodable)
  obtain c cs where cs: "player_name = c # cs"
    using ne by (cases player_name) auto
  have "encodable [c]"
    using enc cs by (simp add: encodable_def)
  then have "fits_32_bytes [c]"
    by (rule single_char_fits)
  moreover have "prefix [c] player_name"
    using cs by simp
  moreover obtain r' where r': "finalize_name player_name = Some (Inr r')"
    "\<forall>p. prefix p player_name \<and> fits_32_bytes p \<longrightarrow> length p \<le> length r'"
    using finalize_name_longest [OF enc] by blast
  ultimately have "length [c] \<le> length r'"
    by blast
  moreover have "r' = r"
    using fin r'(1) by simp
  ultimately show ?thesis by auto
qed

text \<open>
  Claim C9. Once the wait has returned, with the connect name finalized from the
  registered player name: if the finalized name differs from the registered one, the old
  key is removed and the finalized name maps to the payload the old key held, every other
  key keeping its entry; if the two names are equal, the table is unchanged.
\<close>

theorem modify_multidata_rekeys:
  assumes fin: "finalize_name registered = Some (Inr connect_name)"
    and reg: "connect_names registered = Some payload"
  shows "(connect_name \<noteq> registered \<longrightarrow>
            (\<exists>t. modify_multidata connect_name registered connect_names = Inr t \<and>
                 t registered = None \<and> t connect_name = Some payload \<and>
                 (\<forall>k. k \<noteq> registered \<and> k \<noteq> connect_name \<longrightarrow> t k = connect_names k)))
         \<and> (connect_name = registered \<longrightarrow>
              modify_multidata connect_name registered connect_names = Inr connect_names)"
proof -
  have "connect_name \<noteq> []" if "connect_name \<noteq> registered"
  proof -
    from that have "registered \<noteq> []"
      using fin finalize_name_empty by auto
    then show ?thesis
      using fin finalize_name_nonempty by blast
  qed
  then show ?thesis
    using reg by (auto simp: modify_multidata_def)
qed

theorem modify_multidata_rekeys_witness:
  "finalize_name (replicate 20 0xE9) = Some (Inr (replicate 16 0xE9))
   \<and> (\<exists>t. modify_multidata (replicate 16 0xE9) (replicate 20 0xE9)
              [replicate 20 0xE9 \<mapsto> (7::nat)] = Inr t
         \<and> t (replicate 20 0xE9) = None \<and> t (replicate 16 0xE9) = Some 7)"
proof -
  have fin: "finalize_name (replicate 20 0xE9) = Some (Inr (replicate 16 0xE9))"
    using finalize_name_two_bytes [of "replicate 20 0xE9"] by simp
  have reg: "[replicate 20 (0xE9::nat) \<mapsto> (7::nat)] (replicate 20 0xE9) = Some 7"
    by simp
  have ne: "replicate 16 (0xE9::nat) \<noteq> replicate 20 0xE9"
    by (simp add: replicate_eq_replicate)
  from modify_multidata_rekeys
    [of "replicate 20 0xE9" "replicate 16 0xE9" "[replicate 20 0xE9 \<mapsto> 7]" 7, OF fin reg] ne
  have "\<exists>t. modify_multidata (replicate 16 0xE9) (replicate 20 0xE9)
              [replicate 20 0xE9 \<mapsto> (7::nat)] = Inr t
         \<and> t (replicate 20 0xE9) = None \<and> t (replicate 16 0xE9) = Some 7"
    by blast
  with fin show ?thesis by blast
qed

subsection \<open>Cleanup\<close>

lemma unlink_cases:
  "unlink (Some p) fs =
     (if deletable fs p then Inr (fs\<lparr>files := files fs - {p}\<rparr>)
      else if p \<in> files fs then Inl PermissionError else Inl FileNotFoundError)"
  by (simp add: unlink_def deletable_def)

lemma cleanup_try_frame:
  "locked (snd (cleanup_try pf out fs)) = locked fs \<and>
   files (snd (cleanup_try pf out fs)) \<subseteq> files fs"
  by (auto simp: cleanup_try_def unlink_def split: option.splits sum.splits if_splits)

lemma cleanup_try_removed:
  "files fs - files (snd (cleanup_try (Some p) (Some out) fs)) \<subseteq> {p, out, spoiler_log out}"
  by (auto simp: cleanup_try_def unlink_def split: option.splits sum.splits if_splits)

lemma cleanup_try_placement:
  "deletable fs p \<Longrightarrow> p \<notin> files (snd (cleanup_try (Some p) out fs))"
  by (auto simp: cleanup_try_def unlink_def deletable_def split: option.splits sum.splits if_splits)

lemma cleanup_try_image:
  "deletable fs p \<Longrightarrow> deletable fs out \<Longrightarrow>
   out \<notin> files (snd (cleanup_try (Some p) (Some out) fs))"
  by (auto simp: cleanup_try_def unlink_def deletable_def split: option.splits sum.splits if_splits)

lemma cleanup_try_all:
  "deletable fs p \<Longrightarrow> deletable fs out \<Longrightarrow> deletable fs (spoiler_log out) \<Longrightarrow>
   p \<noteq> out \<Longrightarrow> p \<noteq> spoiler_log out \<Longrightarrow> out \<noteq> spoiler_log out \<Longrightarrow>
   files (snd (cleanup_try (Some p) (Some out) fs)) = files fs - {p, out, spoiler_log out}"
  by (auto simp: cleanup_try_def unlink_def deletable_def split: option.splits sum.splits if_splits)

lemma generate_output_finally_eq:
  "generate_output_finally res pf out fs = (res, snd (cleanup_try pf out fs))"
  by (simp add: generate_output_finally_def except_pass_def)

text \<open>
  Claim C6, as amended. On every exit path (whatever the outcome of the body, whatever the
  files present) the cleanup runs, raises nothing and leaves the body's outcome in place:
  success stays success and the original error is the one that propagates; the same holds
  when it runs again on the file system it left. It removes nothing but the placement
  file, the image and the spoiler log. It removes the placement file when that can be
  deleted, the image when the placement file and the image can be deleted, and all three
  when all three can be deleted. With no placement path assigned it removes nothing.
\<close>

theorem generate_output_finally_cleanup:
  "(\<exists>fs'. generate_output_finally res (Some p) (Some out) fs = (res, fs')
      \<and> fst (generate_output_finally res (Some p) (Some out) fs') = res
      \<and> locked fs' = locked fs \<and> files fs' \<subseteq> files fs
      \<and> files fs - files fs' \<subseteq> {p, out, spoiler_log out}
      \<and> (deletable fs p \<longrightarrow> p \<notin> files fs')
      \<and> (deletable fs p \<and> deletable fs out \<longrightarrow> out \<notin> files fs')
      \<and> (deletable fs p \<and> deletable fs out \<and> deletable fs (spoiler_log out)
           \<and> p \<noteq> out \<and> p \<noteq> spoiler_log out \<longrightarrow>
           files fs' = files fs - {p, out, spoiler_log out}))
   \<and> generate_output_finally res None out_file fs = (res, fs)
   \<and> fst (generate_output_finally res placement_file out_file fs) = res"
proof -
  have ne: "out \<noteq> spoiler_log out"
  proof
    assume "out = spoiler_log out"
    then have "length out = length (spoiler_log out)" by simp
    then show False by (simp add: spoiler_log_def)
  qed
  have "generate_output_finally res None out_file fs = (res, fs)"
    by (simp add: generate_output_finally_eq cleanup_try_def unlink_def)
  then show ?thesis
    using cleanup_try_frame [of "Some p" "Some out" fs] cleanup_try_removed [of fs p out]
      cleanup_try_placement [of fs p "Some out"] cleanup_try_image [of fs p out]
      cleanup_try_all [of fs p out] ne
    by (simp add: generate_output_finally_eq)
qed

theorem generate_output_finally_cleanup_witness:
  "deletable \<lparr>files = {''AP.txt'', ''AP.sfc'', ''AP_SPOILER.log'', ''rom.sfc''}, locked = {}\<rparr> ''AP.txt''
   \<and> deletable \<lparr>files = {''AP.txt'', ''AP.sfc'', ''AP_SPOILER.log'', ''rom.sfc''}, locked = {}\<rparr> ''AP.sfc''
   \<and> deletable \<lparr>files = {''AP.txt'', ''AP.sfc'', ''AP_SPOILER.log'', ''rom.sfc''}, locked = {}\<rparr>
        (spoiler_log ''AP.sfc'')
   \<and> (\<exists>fs'. generate_output_finally (Inl RuntimeError) (Some ''AP.txt'') (Some ''AP.sfc'')
          \<lparr>files = {''AP.txt'', ''AP.sfc'', ''AP_SPOILER.log'', ''rom.sfc''}, locked = {}\<rparr>
        = (Inl RuntimeError, fs') \<and> files fs' = {''rom.sfc''})"
proof -
  let ?fs = "\<lparr>files = {''AP.txt'', ''AP.sfc'', ''AP_SPOILER.log'', ''rom.sfc''}, locked = {}\<rparr>"
  have s: "spoiler_log ''AP.sfc'' = ''AP_SPOILER.log''"
    by (simp add: spoiler_log_def)
  have d: "deletable ?fs ''AP.txt''" "deletable ?fs ''AP.sfc''" "deletable ?fs (spoiler_log ''AP.sfc'')"
    by (simp_all add: deletable_def s)
  have n: "''AP.txt'' \<noteq> ''AP.sfc''" "''AP.txt'' \<noteq> spoiler_log ''AP.sfc''"
    by (simp_all add: s)
  obtain fs' where fs': "generate_output_finally (Inl RuntimeError) (Some ''AP.txt'') (Some ''AP.sfc'') ?fs
      = (Inl RuntimeError, fs')"
    "files fs' = files ?fs - {''AP.txt'', ''AP.sfc'', spoiler_log ''AP.sfc''}"
    using generate_output_finally_cleanup [of "Inl RuntimeError" "''AP.txt''" "''AP.sfc''" ?fs] d n
    by blast
  have "files fs' = {''rom.sfc''}"
    unfolding fs'(2) s by auto
  with fs'(1) d show ?thesis by blast
qed

text \<open>
  The claim as stated fails: a file that could be deleted stays when an earlier deletion
  failed. First conjunct: the placement file cannot be removed, and the image and the
  spoiler log, both removable, are still there after the cleanup. Second conjunct: the
  placement file is missing, and an image and a log that exist are left in place.
\<close>

theorem cleanup_stops_at_first_failure_counterexample:
  "deletable \<lparr>files = {''AP.txt'', ''AP.sfc'', ''AP_SPOILER.log''}, locked = {''AP.txt''}\<rparr> ''AP.sfc''
   \<and> deletable \<lparr>files = {''AP.txt'', ''AP.sfc'', ''AP_SPOILER.log''}, locked = {''AP.txt''}\<rparr>
        (spoiler_log ''AP.sfc'')
   \<and> generate_output_finally (Inl RuntimeError) (Some ''AP.txt'') (Some ''AP.sfc'')
        \<lparr>files = {''AP.txt'', ''AP.sfc'', ''AP_SPOILER.log''}, locked = {''AP.txt''}\<rparr>
      = (Inl RuntimeError,
         \<lparr>files = {''AP.txt'', ''AP.sfc'', ''AP_SPOILER.log''}, locked = {''AP.txt''}\<rparr>)
   \<and> generate_output_finally (Inl RuntimeError) (Some ''AP.txt'') (Some ''AP.sfc'')
        \<lparr>files = {''AP.sfc'', ''AP_SPOILER.log''}, locked = {}\<rparr>
      = (Inl RuntimeError, \<lparr>files = {''AP.sfc'', ''AP_SPOILER.log''}, locked = {}\<rparr>)"
  by (simp add: generate_output_finally_eq cleanup_try_def unlink_def deletable_def
      spoiler_log_def)

subsection \<open>Looking locations up and changing them\<close>

lemma modify_location_same:
  assumes "get_location n p ls = Inr l" and "f l = Inr l'"
    and "l_name l' = n" and "l_player l' = p"
  shows "\<exists>ls'. modify_location n p f ls = Inr ls' \<and> get_location n p ls' = Inr l'"
  using assms
proof (induction ls)
  case Nil
  then show ?case by simp
next
  case (Cons x xs)
  show ?case
  proof (cases "l_name x = n \<and> l_player x = p")
    case True
    with Cons.prems show ?thesis by simp
  next
    case False
    with Cons.prems have "get_location n p xs = Inr l"
      by auto
    from Cons.IH [OF this Cons.prems(2,3,4)]
    obtain ls' where "modify_location n p f xs = Inr ls'" "get_location n p ls' = Inr l'"
      by blast
    with False show ?thesis
      by auto
  qed
qed

lemma modify_location_result:
  assumes "modify_location n p f ls = Inr ls'"
  shows "\<exists>l l'. get_location n p ls = Inr l \<and> f l = Inr l'"
  using assms
proof (induction ls arbitrary: ls')
  case Nil
  then show ?case by simp
next
  case (Cons x xs)
  show ?case
  proof (cases "l_name x = n \<and> l_player x = p")
    case True
    with Cons.prems show ?thesis
      by (cases "f x") auto
  next
    case False
    with Cons.prems obtain ys where "modify_location n p f xs = Inr ys"
      by (cases "modify_location n p f xs") auto
    from Cons.IH [OF this] False show ?thesis
      by auto
  qed
qed

lemma modify_location_other:
  assumes "modify_location n p f ls = Inr ls'"
    and "\<forall>l l'. f l = Inr l' \<longrightarrow> l_name l' = l_name l \<and> l_player l' = l_player l"
    and "n' \<noteq> n \<or> p' \<noteq> p"
  shows "get_location n' p' ls' = get_location n' p' ls"
  using assms(1)
proof (induction ls arbitrary: ls')
  case Nil
  then show ?case by simp
next
  case (Cons x xs)
  show ?case
  proof (cases "l_name x = n \<and> l_player x = p")
    case True
    with Cons.prems obtain x' where x': "f x = Inr x'" "ls' = x' # xs"
      by (cases "f x") auto
    with assms(2) have "l_name x' = l_name x" "l_player x' = l_player x"
      by blast+
    with True x'(2) assms(3) show ?thesis
      by auto
  next
    case False
    with Cons.prems obtain ys where ys: "modify_location n p f xs = Inr ys" "ls' = x # ys"
      by (cases "modify_location n p f xs") auto
    from Cons.IH [OF ys(1)] ys(2) show ?thesis
      by simp
  qed
qed

lemma get_location_append:
  "get_location n p (xs @ ys) =
     (case get_location n p xs of Inl e \<Rightarrow> get_location n p ys | Inr l \<Rightarrow> Inr l)"
  by (induction xs) auto

lemma get_location_fresh:
  "\<forall>l \<in> set xs. l_player l \<noteq> p \<Longrightarrow> get_location n p xs = Inl KeyError"
  by (induction xs) auto

lemma set_catalog_rules_key:
  "l_name (set_catalog_rules soe_has p restr i2r loc l) = l_name l \<and>
   l_player (set_catalog_rules soe_has p restr i2r loc l) = l_player l"
  by (simp add: set_catalog_rules_def set_rule_def add_item_rule_def)

lemma set_location_rules_other:
  assumes "set_location_rules soe_has p restr i2r locs ls = Inr ls'"
    and "n \<notin> loc_name ` set locs \<or> p' \<noteq> p"
  shows "get_location n p' ls' = get_location n p' ls"
  using assms
proof (induction locs arbitrary: ls)
  case Nil
  then show ?case by simp
next
  case (Cons loc locs)
  let ?f = "\<lambda>location. Inr (set_catalog_rules soe_has p restr i2r loc location)"
  from Cons.prems(1) obtain ls1 where ls1: "modify_location (loc_name loc) p ?f ls = Inr ls1"
    "set_location_rules soe_has p restr i2r locs ls1 = Inr ls'"
    by (cases "modify_location (loc_name loc) p ?f ls") auto
  have keeps: "\<forall>l l'. ?f l = Inr l' \<longrightarrow> l_name l' = l_name l \<and> l_player l' = l_player l"
    by (simp add: set_catalog_rules_key)
  from Cons.prems(2) have ne: "n \<noteq> loc_name loc \<or> p' \<noteq> p"
    by auto
  from Cons.prems(2) have rest: "n \<notin> loc_name ` set locs \<or> p' \<noteq> p"
    by auto
  have "get_location n p' ls1 = get_location n p' ls"
    by (rule modify_location_other [OF ls1(1) keeps ne])
  with Cons.IH [OF ls1(2) rest] show ?case
    by simp
qed

lemma set_location_rules_returns:
  assumes "\<forall>loc \<in> set locs. \<exists>l. get_location (loc_name loc) p ls = Inr l"
  shows "\<exists>ls'. set_location_rules soe_has p restr i2r locs ls = Inr ls'"
  using assms
proof (induction locs arbitrary: ls)
  case Nil
  then show ?case by simp
next
  case (Cons loc locs)
  let ?f = "\<lambda>location. Inr (set_catalog_rules soe_has p restr i2r loc location)"
  from Cons.prems obtain l where l: "get_location (loc_name loc) p ls = Inr l"
    by auto
  have fl: "?f l = Inr (set_catalog_rules soe_has p restr i2r loc l)"
    by simp
  have key: "l_name l = loc_name loc" "l_player l = p"
    using l by (induction ls) (auto split: if_splits)
  obtain ls1 where ls1: "modify_location (loc_name loc) p ?f ls = Inr ls1"
    "get_location (loc_name loc) p ls1 = Inr (set_catalog_rules soe_has p restr i2r loc l)"
    using modify_location_same [where f = "?f", OF l fl] key
    by (auto simp: set_catalog_rules_key)
  have keeps: "\<forall>l l'. ?f l = Inr l' \<longrightarrow> l_name l' = l_name l \<and> l_player l' = l_player l"
    by (simp add: set_catalog_rules_key)
  have "\<forall>x \<in> set locs. \<exists>l. get_location (loc_name x) p ls1 = Inr l"
  proof
    fix x assume x: "x \<in> set locs"
    show "\<exists>l. get_location (loc_name x) p ls1 = Inr l"
    proof (cases "loc_name x = loc_name loc")
      case True
      with ls1(2) show ?thesis by simp
    next
      case False
      then have "get_location (loc_name x) p ls1 = get_location (loc_name x) p ls"
        using modify_location_other [OF ls1(1) keeps] by blast
      with Cons.prems x show ?thesis
        by simp
    qed
  qed
  from Cons.IH [OF this] ls1(1) show ?case
    by simp
qed

lemma set_location_rules_distinct:
  assumes "set_location_rules soe_has p restr i2r locs ls = Inr ls'"
    and "distinct (map loc_name locs)" and "loc \<in> set locs"
  shows "\<exists>l. get_location (loc_name loc) p ls = Inr l \<and>
           get_location (loc_name loc) p ls' = Inr (set_catalog_rules soe_has p restr i2r loc l)"
  using assms
proof (induction locs arbitrary: ls)
  case Nil
  then show ?case by simp
next
  case (Cons x locs)
  let ?f = "\<lambda>location. Inr (set_catalog_rules soe_has p restr i2r x location)"
  from Cons.prems(1) obtain ls1 where ls1: "modify_location (loc_name x) p ?f ls = Inr ls1"
    "set_location_rules soe_has p restr i2r locs ls1 = Inr ls'"
    by (cases "modify_location (loc_name x) p ?f ls") auto
  have keeps: "\<forall>l l'. ?f l = Inr l' \<longrightarrow> l_name l' = l_name l \<and> l_player l' = l_player l"
    by (simp add: set_catalog_rules_key)
  from Cons.prems(2) have fresh: "loc_name x \<notin> loc_name ` set locs" and d: "distinct (map loc_name locs)"
    by auto
  show ?case
  proof (cases "loc = x")
    case True
    obtain l where l: "get_location (loc_name x) p ls = Inr l"
      using modify_location_result [OF ls1(1)] by blast
    have fl: "?f l = Inr (set_catalog_rules soe_has p restr i2r x l)"
      by simp
    have key: "l_name l = loc_name x" "l_player l = p"
      using l by (induction ls) (auto split: if_splits)
    obtain ls2 where "modify_location (loc_name x) p ?f ls = Inr ls2"
      "get_location (loc_name x) p ls2 = Inr (set_catalog_rules soe_has p restr i2r x l)"
      using modify_location_same [where f = "?f", OF l fl] key
    by (auto simp: set_catalog_rules_key)
    with ls1(1) have "get_location (loc_name x) p ls1 =
        Inr (set_catalog_rules soe_has p restr i2r x l)"
      by simp
    moreover have "get_location (loc_name x) p ls' = get_location (loc_name x) p ls1"
      using set_location_rules_other [OF ls1(2)] fresh by blast
    ultimately show ?thesis
      using l True by simp
  next
    case False
    with Cons.prems(3) have mem: "loc \<in> set locs"
      by simp
    with fresh have "loc_name loc \<noteq> loc_name x"
      by (metis imageI)
    then have "get_location (loc_name loc) p ls1 = get_location (loc_name loc) p ls"
      using modify_location_other [OF ls1(1) keeps] by blast
    with Cons.IH [OF ls1(2) d mem] show ?thesis
      by simp
  qed
qed

lemma location_mapping_loop_dom:
  "location_mapping_loop offsets locs n2i i2r = Inr (n2i', i2r') \<Longrightarrow>
     (\<forall>nm. n2i nm \<noteq> None \<longrightarrow> n2i' nm \<noteq> None) \<and>
     (\<forall>loc \<in> set locs. n2i' (loc_name loc) \<noteq> None)"
proof (induction locs arbitrary: n2i i2r)
  case Nil
  then show ?case by simp
next
  case (Cons loc locs)
  then obtain a where a: "apid offsets (loc_type loc) (loc_index loc) = Inr a"
    by (cases "apid offsets (loc_type loc) (loc_index loc)") auto
  with Cons.prems have run: "location_mapping_loop offsets locs
      (n2i(loc_name loc \<mapsto> Some a)) (i2r(a \<mapsto> loc)) = Inr (n2i', i2r')"
    by simp
  from Cons.IH [OF run] show ?case
    by auto
qed

lemma get_location_mapping_dom:
  assumes "get_location_mapping pe locs = Inr (n2i, i2r)"
  shows "\<forall>loc \<in> set locs. n2i (loc_name loc) \<noteq> None"
proof -
  from assms obtain m where run:
    "location_mapping_loop (id_offset pe) locs Map.empty Map.empty = Inr (m, i2r)"
    and n2i: "n2i = m(''Done'' \<mapsto> None)"
    by (auto simp: get_location_mapping_def split: sum.splits)
  from location_mapping_loop_dom [OF run] have "\<forall>loc \<in> set locs. m (loc_name loc) \<noteq> None"
    by blast
  then show ?thesis
    unfolding n2i by simp
qed

lemma region_locations_returns:
  "\<forall>loc \<in> set locs. n2i (loc_name loc) \<noteq> None \<Longrightarrow>
   \<exists>ls. region_locations p n2i locs = Inr ls"
  by (induction locs) auto

lemma region_locations_absent:
  "region_locations p n2i locs = Inr ls \<Longrightarrow> n \<notin> loc_name ` set locs \<Longrightarrow>
   get_location n p ls = Inl KeyError"
proof (induction locs arbitrary: ls)
  case Nil
  then show ?case by simp
next
  case (Cons loc locs)
  from Cons.prems(1) obtain addr ls0 where s: "n2i (loc_name loc) = Some addr"
    "region_locations p n2i locs = Inr ls0" "ls = SoELocation p (loc_name loc) addr # ls0"
    by (auto split: option.splits sum.splits)
  from Cons.prems(2) have "n \<noteq> loc_name loc" "n \<notin> loc_name ` set locs"
    by auto
  with Cons.IH [OF s(2)] s(3) show ?case
    by (simp add: SoELocation_def)
qed

lemma region_locations_present:
  "region_locations p n2i locs = Inr ls \<Longrightarrow> loc \<in> set locs \<Longrightarrow>
   \<exists>addr. get_location (loc_name loc) p ls = Inr (SoELocation p (loc_name loc) addr)"
proof (induction locs arbitrary: ls)
  case Nil
  then show ?case by simp
next
  case (Cons x locs)
  from Cons.prems(1) obtain addr ls0 where s: "n2i (loc_name x) = Some addr"
    "region_locations p n2i locs = Inr ls0" "ls = SoELocation p (loc_name x) addr # ls0"
    by (auto split: option.splits sum.splits)
  show ?case
  proof (cases "loc_name loc = loc_name x")
    case True
    with s(3) show ?thesis
      by (auto simp: SoELocation_def)
  next
    case False
    with Cons.prems(2) have "loc \<in> set locs"
      by auto
    from Cons.IH [OF s(2) this] False s(3) show ?thesis
      by (simp add: SoELocation_def)
  qed
qed

lemma modify_entrance_returns:
  "\<exists>ens'. modify_entrance n p f (ens @ [\<lparr>e_player = p, e_name = n, e_access_rule = r\<rparr>]) = Inr ens'"
  by (induction ens) auto

lemma get_location_key:
  "get_location n p ls = Inr l \<Longrightarrow> l_name l = n \<and> l_player l = p"
  by (induction ls) (auto split: if_splits)

lemma created_lookup:
  assumes reg: "region_locations p n2i locs = Inr ls"
    and fresh: "\<forall>l \<in> set old. l_player l \<noteq> p"
  shows "(\<forall>loc \<in> set locs. \<exists>addr.
            get_location (loc_name loc) p (old @ ls @ [SoELocation p ''Done'' None]) =
              Inr (SoELocation p (loc_name loc) addr))
       \<and> (\<exists>addr. get_location ''Done'' p (old @ ls @ [SoELocation p ''Done'' None]) =
              Inr (SoELocation p ''Done'' addr))
       \<and> (''Done'' \<notin> loc_name ` set locs \<longrightarrow>
            get_location ''Done'' p (old @ ls @ [SoELocation p ''Done'' None]) =
              Inr (SoELocation p ''Done'' None))"
proof -
  let ?D = "SoELocation p ''Done'' None :: 'a ap_location"
  have app: "get_location n p (old @ ls @ [?D]) =
      (case get_location n p ls of Inl e \<Rightarrow> get_location n p [?D] | Inr l \<Rightarrow> Inr l)" for n
    by (simp add: get_location_append get_location_fresh [OF fresh])
  have d: "get_location ''Done'' p [?D] = Inr ?D"
    by (simp add: SoELocation_def)
  have a: "\<exists>addr. get_location (loc_name loc) p (old @ ls @ [?D]) =
      Inr (SoELocation p (loc_name loc) addr)" if "loc \<in> set locs" for loc
    using region_locations_present [OF reg that] by (auto simp: app)
  have b: "\<exists>addr. get_location ''Done'' p (old @ ls @ [?D]) = Inr (SoELocation p ''Done'' addr)"
  proof (cases "''Done'' \<in> loc_name ` set locs")
    case True
    then obtain loc where "loc \<in> set locs" "loc_name loc = ''Done''"
      by auto
    with a show ?thesis
      by metis
  next
    case False
    from region_locations_absent [OF reg False] d show ?thesis
      by (auto simp: app)
  qed
  have c: "get_location ''Done'' p (old @ ls @ [?D]) = Inr ?D"
    if "''Done'' \<notin> loc_name ` set locs"
    using region_locations_absent [OF reg that] d by (simp add: app)
  from a b c show ?thesis
    by blast
qed

lemma setup_rules:
  assumes names: "\<forall>loc \<in> set locs. n2i (loc_name loc) \<noteq> None"
    and fresh: "\<forall>l \<in> set (world_locations world). l_player l \<noteq> p"
  shows "\<exists>w1 w2. create_regions p n2i locs world = Inr w1 \<and>
           set_rules has soe_has pe p restr i2r locs w1 = Inr w2 \<and>
           completion_condition w2 p = Some (\<lambda>state. has state ''Victory'' p) \<and>
           (''Done'' \<notin> loc_name ` set locs \<longrightarrow>
              get_location ''Done'' p (world_locations w2) =
                Inr (set_rule (\<lambda>state. soe_has state (P_FINAL_BOSS pe) p 1)
                       (SoELocation p ''Done'' None))) \<and>
           (distinct (map loc_name locs) \<longrightarrow>
              (\<forall>loc \<in> set locs. \<exists>l. l_item_rule l = (\<lambda>item. Inr True) \<and>
                 get_location (loc_name loc) p (world_locations w2) =
                   Inr (set_catalog_rules soe_has p restr i2r loc l)))"
proof -
  let ?D = "SoELocation p ''Done'' None :: 'a ap_location"
  let ?rD = "\<lambda>state. soe_has state (P_FINAL_BOSS pe) p 1"
  let ?fD = "\<lambda>location. Inr (set_rule ?rD location) :: py_error + 'a ap_location"
  let ?fE = "\<lambda>en :: 'a ap_entrance. en\<lparr>e_access_rule := (\<lambda>state. True)\<rparr>"
  obtain ls where reg: "region_locations p n2i locs = Inr (ls :: 'a ap_location list)"
    using region_locations_returns [OF names] by blast
  let ?L1 = "world_locations world @ ls @ [?D]"
  let ?E1 = "world_entrances world @
    [\<lparr>e_player = p, e_name = ''New Game'', e_access_rule = (\<lambda>state. True)\<rparr>]"
  let ?w1 = "world\<lparr>world_locations := ?L1, world_entrances := ?E1\<rparr>"
  have w1: "create_regions p n2i locs world = Inr ?w1"
    by (simp add: create_regions_def reg)
  note look = created_lookup [OF reg fresh]
  from look obtain addr where dl: "get_location ''Done'' p ?L1 = Inr (SoELocation p ''Done'' addr)"
    by blast
  let ?dl = "SoELocation p ''Done'' addr :: 'a ap_location"
  have fdl: "?fD ?dl = Inr (set_rule ?rD ?dl)"
    by simp
  have "l_name (set_rule ?rD ?dl) = ''Done''" "l_player (set_rule ?rD ?dl) = p"
    by (simp_all add: set_rule_def SoELocation_def)
  with modify_location_same [where f = "?fD", OF dl fdl]
  obtain ls1 where ls1: "modify_location ''Done'' p ?fD ?L1 = Inr ls1"
    "get_location ''Done'' p ls1 = Inr (set_rule ?rD ?dl)"
    by blast
  have keepsD: "\<forall>l l'. ?fD l = Inr l' \<longrightarrow> l_name l' = l_name l \<and> l_player l' = l_player l"
    by (auto simp: set_rule_def)
  have other: "get_location n p ls1 = get_location n p ?L1" if "n \<noteq> ''Done''" for n
    using modify_location_other [OF ls1(1) keepsD] that by blast
  have cat: "\<exists>l. l_item_rule l = (\<lambda>item. Inr True) \<and> get_location (loc_name loc) p ls1 = Inr l"
    if "loc \<in> set locs" for loc
  proof (cases "loc_name loc = ''Done''")
    case True
    with ls1(2) show ?thesis
      by (simp add: set_rule_def SoELocation_def)
  next
    case False
    from look that obtain a where
      "get_location (loc_name loc) p ?L1 = Inr (SoELocation p (loc_name loc) a)"
      by blast
    with other [OF False] show ?thesis
      by (simp add: SoELocation_def)
  qed
  then have "\<forall>loc \<in> set locs. \<exists>l. get_location (loc_name loc) p ls1 = Inr l"
    by blast
  then obtain ls2 where ls2: "set_location_rules soe_has p restr i2r locs ls1 = Inr ls2"
    using set_location_rules_returns by blast
  obtain ens where ens: "modify_entrance ''New Game'' p ?fE ?E1 = Inr ens"
    using modify_entrance_returns by blast
  let ?w2 = "?w1\<lparr>world_locations := ls2, world_entrances := ens,
    completion_condition := (completion_condition ?w1)(p \<mapsto> (\<lambda>state. has state ''Victory'' p))\<rparr>"
  have w2: "set_rules has soe_has pe p restr i2r locs ?w1 = Inr ?w2"
    using ls1(1) ens ls2 by (simp add: set_rules_def)
  have cc: "completion_condition ?w2 p = Some (\<lambda>state. has state ''Victory'' p)"
    by simp
  have dn: "get_location ''Done'' p (world_locations ?w2) = Inr (set_rule ?rD ?D)"
    if nd: "''Done'' \<notin> loc_name ` set locs"
  proof -
    from look nd dl have "?dl = ?D"
      by simp
    with ls1(2) have "get_location ''Done'' p ls1 = Inr (set_rule ?rD ?D)"
      by simp
    moreover have "get_location ''Done'' p ls2 = get_location ''Done'' p ls1"
      using set_location_rules_other [OF ls2] nd by blast
    ultimately show ?thesis
      by simp
  qed
  have ct: "\<exists>l. l_item_rule l = (\<lambda>item. Inr True) \<and>
      get_location (loc_name loc) p (world_locations ?w2) =
        Inr (set_catalog_rules soe_has p restr i2r loc l)"
    if "distinct (map loc_name locs)" "loc \<in> set locs" for loc
  proof -
    from set_location_rules_distinct [OF ls2 that] obtain l where
      l: "get_location (loc_name loc) p ls1 = Inr l"
      "get_location (loc_name loc) p ls2 = Inr (set_catalog_rules soe_has p restr i2r loc l)"
      by blast
    from cat [OF that(2)] l(1) have "l_item_rule l = (\<lambda>item. Inr True)"
      by auto
    with l(2) show ?thesis
      by auto
  qed
  from w1 w2 cc dn ct show ?thesis
    by blast
qed

subsection \<open>Item filter of the restricted mode\<close>

lemma make_item_type_limit_rule_accepts:
  "(make_item_type_limit_rule p i2r ty item = Inr True) =
     (i_player item \<noteq> p \<or> native_category i2r item = Some ty)"
  by (auto simp: make_item_type_limit_rule_def native_category_def split: option.splits)

lemma make_item_type_limit_rule_rejects:
  "i_player item = p \<Longrightarrow> native_category i2r item = Some ty' \<Longrightarrow> ty' \<noteq> ty \<Longrightarrow>
   make_item_type_limit_rule p i2r ty item = Inr False"
  by (auto simp: make_item_type_limit_rule_def native_category_def split: option.splits)

lemma restricted_item_rule:
  assumes "l_item_rule l = (\<lambda>item. Inr True)"
  shows "l_item_rule (set_catalog_rules soe_has p True i2r loc l) item =
           (case make_item_type_limit_rule p i2r (loc_type loc) item of
              Inl e \<Rightarrow> Inl e | Inr b \<Rightarrow> Inr b)"
  using assms
  by (auto simp: set_catalog_rules_def add_item_rule_def set_rule_def split: sum.splits)

lemma restricted_item_rule_accepts:
  assumes "l_item_rule l = (\<lambda>item. Inr True)"
  shows "(l_item_rule (set_catalog_rules soe_has p True i2r loc l) item = Inr True) =
           (i_player item \<noteq> p \<or> native_category i2r item = Some (loc_type loc))"
  unfolding restricted_item_rule [OF assms]
  using make_item_type_limit_rule_accepts [of p i2r "loc_type loc" item]
  by (auto split: sum.splits)

lemma restricted_item_rule_rejects:
  assumes "l_item_rule l = (\<lambda>item. Inr True)"
    and "i_player item = p" and "native_category i2r item = Some ty" and "ty \<noteq> loc_type loc"
  shows "l_item_rule (set_catalog_rules soe_has p True i2r loc l) item = Inr False"
  unfolding restricted_item_rule [OF assms(1)]
  using make_item_type_limit_rule_rejects [OF assms(2,3,4)]
  by simp

text \<open>
  Claim C8, amended. The filter \<open>make_item_type_limit_rule\<close> builds for a category accepts
  an item exactly when the item belongs to another player or its native category is that
  category. In restricted mode, for a catalog whose location names are pairwise
  different: after \<open>create_regions\<close> and \<open>set_rules\<close>, the filter of the location found
  under each catalog location's name accepts an item exactly when the item belongs to
  another player or its native category is the catalog location's category; an item of
  the same player with another native category is rejected.
\<close>

theorem item_type_limit_rule_installed:
  assumes "get_location_mapping pe locs = Inr (location_name_to_id, location_id_to_raw)"
    and "\<forall>l \<in> set (world_locations world). l_player l \<noteq> player"
    and "distinct (map loc_name locs)"
  shows "(\<forall>ty item. (make_item_type_limit_rule player item_id_to_raw ty item = Inr True) =
            (i_player item \<noteq> player \<or> native_category item_id_to_raw item = Some ty))
       \<and> (\<exists>w1 w2. create_regions player location_name_to_id locs world = Inr w1 \<and>
            set_rules has soe_has pe player True item_id_to_raw locs w1 = Inr w2 \<and>
            (\<forall>loc \<in> set locs. \<exists>l.
               get_location (loc_name loc) player (world_locations w2) = Inr l \<and>
               (\<forall>item. (l_item_rule l item = Inr True) =
                  (i_player item \<noteq> player \<or>
                   native_category item_id_to_raw item = Some (loc_type loc))) \<and>
               (\<forall>item ty. i_player item = player \<and>
                  native_category item_id_to_raw item = Some ty \<and> ty \<noteq> loc_type loc \<longrightarrow>
                  l_item_rule l item = Inr False)))"
proof -
  have names: "\<forall>loc \<in> set locs. location_name_to_id (loc_name loc) \<noteq> None"
    by (rule get_location_mapping_dom [OF assms(1)])
  obtain w1 w2 where w: "create_regions player location_name_to_id locs world = Inr w1"
    "set_rules has soe_has pe player True item_id_to_raw locs w1 = Inr w2"
    and ct: "distinct (map loc_name locs) \<longrightarrow>
      (\<forall>loc \<in> set locs. \<exists>l. l_item_rule l = (\<lambda>item. Inr True) \<and>
         get_location (loc_name loc) player (world_locations w2) =
           Inr (set_catalog_rules soe_has player True item_id_to_raw loc l))"
    using setup_rules [OF names assms(2), of has soe_has pe True item_id_to_raw] by blast
  have "\<exists>l. get_location (loc_name loc) player (world_locations w2) = Inr l \<and>
      (\<forall>item. (l_item_rule l item = Inr True) =
         (i_player item \<noteq> player \<or> native_category item_id_to_raw item = Some (loc_type loc))) \<and>
      (\<forall>item ty. i_player item = player \<and>
         native_category item_id_to_raw item = Some ty \<and> ty \<noteq> loc_type loc \<longrightarrow>
         l_item_rule l item = Inr False)"
    if "loc \<in> set locs" for loc
  proof -
    from ct assms(3) that obtain l where l: "l_item_rule l = (\<lambda>item. Inr True)"
      "get_location (loc_name loc) player (world_locations w2) =
         Inr (set_catalog_rules soe_has player True item_id_to_raw loc l)"
      by blast
    show ?thesis
      using l(2) restricted_item_rule_accepts [OF l(1)] restricted_item_rule_rejects [OF l(1)]
      by blast
  qed
  with w make_item_type_limit_rule_accepts show ?thesis
    by blast
qed

theorem item_type_limit_rule_installed_witness:
  "\<exists>w1 w2 l.
     create_regions 1 [''Alchemist'' \<mapsto> Some 64000, ''Thraxx'' \<mapsto> Some 64050, ''Done'' \<mapsto> None]
       [\<lparr>loc_type = 1, loc_index = 0, loc_name = ''Alchemist'', loc_requires = []\<rparr>,
        \<lparr>loc_type = 2, loc_index = 0, loc_name = ''Thraxx'', loc_requires = []\<rparr>]
       \<lparr>world_locations = [], world_entrances = [], completion_condition = Map.empty\<rparr>
       = Inr w1
     \<and> set_rules (\<lambda>(state :: unit) name player. False) (\<lambda>state progress player count. False)
         \<lparr>CHECK_NONE = 0, CHECK_ALCHEMY = 1, CHECK_BOSS = 2, CHECK_GOURD = 3, CHECK_NPC = 4,
          P_FINAL_BOSS = 9\<rparr> 1 True
         [64050 \<mapsto> \<lparr>item_type = 2, item_index = 0, item_name = ''Knight Basher'',
                     item_progression = True\<rparr>]
         [\<lparr>loc_type = 1, loc_index = 0, loc_name = ''Alchemist'', loc_requires = []\<rparr>,
          \<lparr>loc_type = 2, loc_index = 0, loc_name = ''Thraxx'', loc_requires = []\<rparr>]
         w1 = Inr w2
     \<and> get_location ''Alchemist'' 1 (world_locations w2) = Inr l
     \<and> l_item_rule l (SoEItem ''Knight Basher'' True (Some 64050) 1) = Inr False
     \<and> l_item_rule l (SoEItem ''Knight Basher'' True (Some 64050) 2) = Inr True"
proof -
  define pe where "pe = \<lparr>CHECK_NONE = 0, CHECK_ALCHEMY = 1, CHECK_BOSS = 2, CHECK_GOURD = 3,
    CHECK_NPC = 4, P_FINAL_BOSS = 9\<rparr>"
  define a where "a = \<lparr>loc_type = 1, loc_index = 0, loc_name = ''Alchemist'', loc_requires = []\<rparr>"
  define b where "b = \<lparr>loc_type = 2, loc_index = 0, loc_name = ''Thraxx'', loc_requires = []\<rparr>"
  define n2i where "n2i = [''Alchemist'' \<mapsto> Some (64000::int), ''Thraxx'' \<mapsto> Some 64050,
    ''Done'' \<mapsto> None]"
  define i2r where "i2r = [(64050::int) \<mapsto> \<lparr>item_type = 2, item_index = 0,
    item_name = ''Knight Basher'', item_progression = True\<rparr>]"
  define world where "world = (\<lparr>world_locations = [], world_entrances = [],
    completion_condition = Map.empty\<rparr> :: unit multiworld)"
  define own where "own = SoEItem ''Knight Basher'' True (Some 64050) 1"
  define other where "other = SoEItem ''Knight Basher'' True (Some 64050) 2"
  have h1: "get_location_mapping pe [a, b] = Inr (n2i, [64000 \<mapsto> a, 64050 \<mapsto> b])"
    by (simp add: get_location_mapping_def apid_def id_offset_def id_base_def pe_def a_def
        b_def n2i_def)
  have h2: "\<forall>l \<in> set (world_locations world). l_player l \<noteq> 1"
    by (simp add: world_def)
  have h3: "distinct (map loc_name [a, b])"
    by (simp add: a_def b_def)
  obtain w1 w2 where w: "create_regions 1 n2i [a, b] world = Inr w1"
    "set_rules (\<lambda>(state :: unit) name player. False) (\<lambda>state progress player count. False)
       pe 1 True i2r [a, b] w1 = Inr w2"
    and each: "\<forall>loc \<in> set [a, b]. \<exists>l.
       get_location (loc_name loc) 1 (world_locations w2) = Inr l \<and>
       (\<forall>item. (l_item_rule l item = Inr True) =
          (i_player item \<noteq> 1 \<or> native_category i2r item = Some (loc_type loc))) \<and>
       (\<forall>item ty. i_player item = 1 \<and> native_category i2r item = Some ty \<and> ty \<noteq> loc_type loc \<longrightarrow>
          l_item_rule l item = Inr False)"
    using item_type_limit_rule_installed [OF h1 h2 h3] by blast
  have "a \<in> set [a, b]"
    by simp
  with each obtain l where l: "get_location (loc_name a) 1 (world_locations w2) = Inr l"
    "\<forall>item. (l_item_rule l item = Inr True) =
       (i_player item \<noteq> 1 \<or> native_category i2r item = Some (loc_type a))"
    "\<forall>item ty. i_player item = 1 \<and> native_category i2r item = Some ty \<and> ty \<noteq> loc_type a \<longrightarrow>
       l_item_rule l item = Inr False"
    by blast
  have own: "i_player own = 1" "native_category i2r own = Some 2" "2 \<noteq> loc_type a"
    by (simp_all add: own_def SoEItem_def native_category_def i2r_def a_def)
  have other: "i_player other \<noteq> 1"
    by (simp add: other_def SoEItem_def)
  from l(3) own have r1: "l_item_rule l own = Inr False"
    by blast
  from l(2) other have r2: "l_item_rule l other = Inr True"
    by blast
  have nm: "loc_name a = ''Alchemist''"
    by (simp add: a_def)
  from l(1) nm have found: "get_location ''Alchemist'' 1 (world_locations w2) = Inr l"
    by simp
  from w found r1 r2 show ?thesis
    unfolding pe_def a_def b_def n2i_def i2r_def world_def own_def other_def by blast
qed

text \<open>
  The claim as stated fails: the filter goes to the location that the lookup by name
  finds. With two catalog locations of one name and different categories, the first
  location of that name receives both filters and rejects an item of its own category,
  and the second receives none and accepts an item of another category.
\<close>

theorem item_type_limit_rule_same_name_counterexample:
  "(case create_regions 1 [''Cave'' \<mapsto> Some 64050, ''Done'' \<mapsto> None]
       [\<lparr>loc_type = 1, loc_index = 0, loc_name = ''Cave'', loc_requires = []\<rparr>,
        \<lparr>loc_type = 2, loc_index = 0, loc_name = ''Cave'', loc_requires = []\<rparr>]
       \<lparr>world_locations = [], world_entrances = [], completion_condition = Map.empty\<rparr>
    of Inl e \<Rightarrow> False
     | Inr w1 \<Rightarrow>
        (case set_rules (\<lambda>(state :: unit) name player. False)
                (\<lambda>state progress player count. False)
                \<lparr>CHECK_NONE = 0, CHECK_ALCHEMY = 1, CHECK_BOSS = 2, CHECK_GOURD = 3,
                 CHECK_NPC = 4, P_FINAL_BOSS = 9\<rparr> 1 True
                [64000 \<mapsto> \<lparr>item_type = 1, item_index = 0, item_name = ''Acid Rain'',
                            item_progression = False\<rparr>]
                [\<lparr>loc_type = 1, loc_index = 0, loc_name = ''Cave'', loc_requires = []\<rparr>,
                 \<lparr>loc_type = 2, loc_index = 0, loc_name = ''Cave'', loc_requires = []\<rparr>]
                w1
         of Inl e \<Rightarrow> False
          | Inr w2 \<Rightarrow>
              length (world_locations w2) = 3
              \<and> l_item_rule (world_locations w2 ! 0)
                  (SoEItem ''Acid Rain'' False (Some 64000) 1) = Inr False
              \<and> l_item_rule (world_locations w2 ! 1)
                  (SoEItem ''Acid Rain'' False (Some 64000) 1) = Inr True))"
  by (simp add: create_regions_def set_rules_def SoELocation_def SoEItem_def set_rule_def
      add_item_rule_def set_catalog_rules_def make_item_type_limit_rule_def)

subsection \<open>The goal: \<open>Done\<close> and \<open>Victory\<close>\<close>

lemma generate_basic_places:
  assumes "get_location ''Done'' p (world_locations w2) = Inr d" and "l_item d = None"
  shows "\<exists>w3. generate_basic p draw w2 = Inr (w3, draw) \<and>
           completion_condition w3 = completion_condition w2 \<and>
           get_location ''Done'' p (world_locations w3) =
             Inr (d\<lparr>l_item := Some (SoEItem ''Victory'' True None p), l_event := True,
                    l_locked := True\<rparr>)"
proof -
  let ?ev = "create_event p ''Victory''"
  let ?d' = "d\<lparr>l_item := Some (SoEItem ''Victory'' True None p), l_event := True,
    l_locked := True\<rparr>"
  have key: "l_name d = ''Done''" "l_player d = p"
    using get_location_key [OF assms(1)] by simp_all
  have f: "place_locked_item ?ev d = Inr ?d'"
    using assms(2) by (simp add: place_locked_item_def create_event_def SoEItem_def)
  have "l_name ?d' = ''Done''" "l_player ?d' = p"
    using key by simp_all
  with modify_location_same [where f = "place_locked_item ?ev", OF assms(1) f]
  obtain ls where ls: "modify_location ''Done'' p (place_locked_item ?ev) (world_locations w2) = Inr ls"
    "get_location ''Done'' p ls = Inr ?d'"
    by blast
  then show ?thesis
    by (simp add: generate_basic_def)
qed

text \<open>
  Claim C7, amended. Let no catalog location bear the name \<open>Done\<close>, and let the multiworld
  hold no location of the player before \<open>create_regions\<close>. Then \<open>create_regions\<close>,
  \<open>set_rules\<close> and \<open>generate_basic\<close> return, in both placement modes, and afterwards: the
  location found under the name \<open>Done\<close> for the player has no address, holds the event
  item \<open>Victory\<close> (an advancement item of the player, without code) and is locked; its
  access rule is the final-boss requirement with count 1; and the completion condition of
  the player holds exactly when the state has \<open>Victory\<close>.
\<close>

theorem done_holds_locked_victory:
  assumes "get_location_mapping pe locs = Inr (location_name_to_id, location_id_to_raw)"
    and "\<forall>l \<in> set (world_locations world). l_player l \<noteq> player"
    and "''Done'' \<notin> loc_name ` set locs"
  shows "\<exists>w1 w2 w3 d cc.
           create_regions player location_name_to_id locs world = Inr w1 \<and>
           set_rules has soe_has pe player restrict_item_placement item_id_to_raw locs w1 = Inr w2 \<and>
           generate_basic player draw w2 = Inr (w3, draw) \<and>
           get_location ''Done'' player (world_locations w3) = Inr d \<and>
           l_address d = None \<and>
           l_item d = Some (SoEItem ''Victory'' True None player) \<and>
           l_locked d \<and>
           (\<forall>state. l_access_rule d state = soe_has state (P_FINAL_BOSS pe) player 1) \<and>
           completion_condition w3 player = Some cc \<and>
           (\<forall>state. cc state = has state ''Victory'' player)"
proof -
  let ?d = "set_rule (\<lambda>state. soe_has state (P_FINAL_BOSS pe) player 1)
    (SoELocation player ''Done'' None)"
  have names: "\<forall>loc \<in> set locs. location_name_to_id (loc_name loc) \<noteq> None"
    by (rule get_location_mapping_dom [OF assms(1)])
  obtain w1 w2 where w: "create_regions player location_name_to_id locs world = Inr w1"
    "set_rules has soe_has pe player restrict_item_placement item_id_to_raw locs w1 = Inr w2"
    and cc: "completion_condition w2 player = Some (\<lambda>state. has state ''Victory'' player)"
    and dn: "''Done'' \<notin> loc_name ` set locs \<longrightarrow>
      get_location ''Done'' player (world_locations w2) = Inr ?d"
    using setup_rules [OF names assms(2), of has soe_has pe restrict_item_placement
        item_id_to_raw]
    by blast
  from dn assms(3) have found: "get_location ''Done'' player (world_locations w2) = Inr ?d"
    by blast
  have empty: "l_item ?d = None"
    by (simp add: set_rule_def SoELocation_def)
  let ?d' = "?d\<lparr>l_item := Some (SoEItem ''Victory'' True None player), l_event := True,
    l_locked := True\<rparr>"
  obtain w3 where w3: "generate_basic player draw w2 = Inr (w3, draw)"
    "completion_condition w3 = completion_condition w2"
    "get_location ''Done'' player (world_locations w3) = Inr ?d'"
    using generate_basic_places [OF found empty] by blast
  have a: "l_address ?d' = None"
    by (simp add: set_rule_def SoELocation_def)
  have b: "l_item ?d' = Some (SoEItem ''Victory'' True None player)"
    by simp
  have c: "l_locked ?d'"
    by simp
  have r: "\<forall>state. l_access_rule ?d' state = soe_has state (P_FINAL_BOSS pe) player 1"
    by (simp add: set_rule_def)
  have cc3: "completion_condition w3 player = Some (\<lambda>state. has state ''Victory'' player)"
    using w3(2) cc by simp
  have e: "\<forall>state. (\<lambda>state. has state ''Victory'' player) state = has state ''Victory'' player"
    by simp
  from w w3(1) w3(3) a b c r cc3 e show ?thesis
    by blast
qed

theorem done_holds_locked_victory_witness:
  "\<exists>w1 w2 w3 d cc.
     create_regions 1 [''Alchemist'' \<mapsto> Some 64000, ''Done'' \<mapsto> None]
       [\<lparr>loc_type = 1, loc_index = 0, loc_name = ''Alchemist'', loc_requires = [(1, 5)]\<rparr>]
       \<lparr>world_locations = [], world_entrances = [], completion_condition = Map.empty\<rparr>
       = Inr w1
     \<and> set_rules (\<lambda>(state :: unit) name player. name = ''Victory'')
         (\<lambda>state progress player count. progress = 9)
         \<lparr>CHECK_NONE = 0, CHECK_ALCHEMY = 1, CHECK_BOSS = 2, CHECK_GOURD = 3, CHECK_NPC = 4,
          P_FINAL_BOSS = 9\<rparr> 1 False Map.empty
         [\<lparr>loc_type = 1, loc_index = 0, loc_name = ''Alchemist'', loc_requires = [(1, 5)]\<rparr>]
         w1 = Inr w2
     \<and> generate_basic 1 4711 w2 = Inr (w3, 4711)
     \<and> get_location ''Done'' 1 (world_locations w3) = Inr d
     \<and> l_item d = Some (SoEItem ''Victory'' True None 1) \<and> l_locked d
     \<and> l_access_rule d ()
     \<and> completion_condition w3 1 = Some cc \<and> cc ()"
proof -
  define pe where "pe = \<lparr>CHECK_NONE = 0, CHECK_ALCHEMY = 1, CHECK_BOSS = 2, CHECK_GOURD = 3,
    CHECK_NPC = 4, P_FINAL_BOSS = 9\<rparr>"
  define a where "a = \<lparr>loc_type = 1, loc_index = 0, loc_name = ''Alchemist'',
    loc_requires = [(1, 5)]\<rparr>"
  define n2i where "n2i = [''Alchemist'' \<mapsto> Some (64000::int), ''Done'' \<mapsto> None]"
  define world where "world = (\<lparr>world_locations = [], world_entrances = [],
    completion_condition = Map.empty\<rparr> :: unit multiworld)"
  define has where "has = (\<lambda>(state :: unit) (name :: string) (player :: int). name = ''Victory'')"
  define soe_has where
    "soe_has = (\<lambda>(state :: unit) (progress :: int) (player :: int) (count :: int). progress = 9)"
  have h1: "get_location_mapping pe [a] = Inr (n2i, [64000 \<mapsto> a])"
    by (simp add: get_location_mapping_def apid_def id_offset_def id_base_def pe_def a_def
        n2i_def)
  have h2: "\<forall>l \<in> set (world_locations world). l_player l \<noteq> 1"
    by (simp add: world_def)
  have h3: "''Done'' \<notin> loc_name ` set [a]"
    by (simp add: a_def)
  obtain w1 w2 w3 d cc where w: "create_regions 1 n2i [a] world = Inr w1"
    "set_rules has soe_has pe 1 False Map.empty [a] w1 = Inr w2"
    "generate_basic 1 4711 w2 = Inr (w3, 4711)"
    "get_location ''Done'' 1 (world_locations w3) = Inr d"
    "l_item d = Some (SoEItem ''Victory'' True None 1)" "l_locked d"
    and rule: "\<forall>state. l_access_rule d state = soe_has state (P_FINAL_BOSS pe) 1 1"
    and cc: "completion_condition w3 1 = Some cc" "\<forall>state. cc state = has state ''Victory'' 1"
    using done_holds_locked_victory [OF h1 h2 h3, of has soe_has False Map.empty 4711]
    by blast
  from rule have r: "l_access_rule d ()"
    by (simp add: soe_has_def pe_def)
  from cc(2) have c: "cc ()"
    by (simp add: has_def)
  from w r cc(1) c show ?thesis
    unfolding pe_def a_def n2i_def world_def has_def soe_has_def by blast
qed

text \<open>
  The claim as stated fails when the catalog has a location of the name \<open>Done\<close>: the
  lookup by name finds the catalog location, which comes first; the event is placed
  there, and its access rule is the one compiled from the catalog location's requirements,
  set by the loop after the final-boss rule. Here the state has the final-boss token and
  the rule of the location holding \<open>Victory\<close> is false.
\<close>

theorem done_in_catalog_counterexample:
  "(case create_regions 1 [''Done'' \<mapsto> None]
       [\<lparr>loc_type = 1, loc_index = 0, loc_name = ''Done'', loc_requires = [(1, 5)]\<rparr>]
       \<lparr>world_locations = [], world_entrances = [], completion_condition = Map.empty\<rparr>
    of Inl e \<Rightarrow> False
     | Inr w1 \<Rightarrow>
        (case set_rules (\<lambda>(state :: unit) name player. name = ''Victory'')
                (\<lambda>state progress player count. progress = 9)
                \<lparr>CHECK_NONE = 0, CHECK_ALCHEMY = 1, CHECK_BOSS = 2, CHECK_GOURD = 3,
                 CHECK_NPC = 4, P_FINAL_BOSS = 9\<rparr> 1 False Map.empty
                [\<lparr>loc_type = 1, loc_index = 0, loc_name = ''Done'', loc_requires = [(1, 5)]\<rparr>]
                w1
         of Inl e \<Rightarrow> False
          | Inr w2 \<Rightarrow>
             (case generate_basic 1 4711 w2 of
                Inl e \<Rightarrow> False
              | Inr (w3, seed) \<Rightarrow>
                 (case get_location ''Done'' 1 (world_locations w3) of
                    Inl e \<Rightarrow> False
                  | Inr d \<Rightarrow>
                      l_item d = Some (SoEItem ''Victory'' True None 1)
                      \<and> \<not> l_access_rule d ()))))
   \<and> get_location_mapping
       \<lparr>CHECK_NONE = 0, CHECK_ALCHEMY = 1, CHECK_BOSS = 2, CHECK_GOURD = 3, CHECK_NPC = 4,
        P_FINAL_BOSS = 9\<rparr>
       [\<lparr>loc_type = 1, loc_index = 0, loc_name = ''Done'', loc_requires = [(1, 5)]\<rparr>]
     = Inr ([''Done'' \<mapsto> None],
            [64000 \<mapsto> \<lparr>loc_type = 1, loc_index = 0, loc_name = ''Done'',
                         loc_requires = [(1, 5)]\<rparr>])"
  by (simp add: create_regions_def set_rules_def generate_basic_def SoELocation_def
      SoEItem_def set_rule_def set_catalog_rules_def make_rule_def place_locked_item_def
      create_event_def get_location_mapping_def apid_def id_offset_def id_base_def)

subsection \<open>Placement file\<close>

lemma digits_no_newline: "CHR 0x0A \<notin> set (digits n)"
proof (induction n rule: digits.induct)
  case (1 n)
  have d: "n mod 10 < 10"
    by simp
  have "\<And>k. k < 10 \<Longrightarrow> ''0123456789'' ! k \<noteq> CHR 0x0A"
  proof -
    fix k :: nat assume "k < 10"
    then have "k \<in> {0, 1, 2, 3, 4, 5, 6, 7, 8, 9}"
      by auto
    then show "''0123456789'' ! k \<noteq> CHR 0x0A"
      by auto
  qed
  note dig = this
  show ?case
  proof (cases "n < 10")
    case True
    then show ?thesis
      using dig [of n] by (subst digits.simps) simp
  next
    case False
    with 1 have "CHR 0x0A \<notin> set (digits (n div 10))"
      by simp
    with False dig [OF d] show ?thesis
      by (subst digits.simps) simp
  qed
qed

lemma str_int_no_newline: "CHR 0x0A \<notin> set (str_int i)"
  by (simp add: str_int_def digits_no_newline)

lemma same_player_record_newline:
  "count_list (same_player_record a b c d) (CHR 0x0A) = 1 \<and>
   last (same_player_record a b c d) = CHR 0x0A"
  by (simp add: same_player_record_def str_int_no_newline count_list_0_iff)

lemma foreign_record_newline:
  "count_list (foreign_record a b c d e) (CHR 0x0A) = 1 \<and>
   last (foreign_record a b c d e) = CHR 0x0A"
  by (simp add: foreign_record_def str_int_no_newline count_list_0_iff)

lemma expected_record_newline:
  "expected_record pe p l2r i2r location line \<Longrightarrow>
   count_list line (CHR 0x0A) = 1 \<and> last line = CHR 0x0A"
  using same_player_record_newline foreign_record_newline
  by (auto simp: expected_record_def split: option.splits if_splits)

lemma placement_lines_resolved:
  assumes "resolved p l2r i2r locs"
  shows "\<exists>lines. placement_lines pe p l2r i2r locs = Inr lines \<and>
           list_all2 (expected_record pe p l2r i2r) (filter (gets_line p) locs) lines"
  using assms
proof (induction locs)
  case Nil
  then show ?case by simp
next
  case (Cons location rest)
  from Cons.prems have rest: "resolved p l2r i2r rest"
    by (simp add: resolved_def)
  from Cons.IH [OF rest] obtain ls where ls: "placement_lines pe p l2r i2r rest = Inr ls"
    "list_all2 (expected_record pe p l2r i2r) (filter (gets_line p) rest) ls"
    by blast
  show ?case
  proof (cases "l_player location = p")
    case False
    then have "\<not> gets_line p location"
      by (simp add: gets_line_def)
    with False ls show ?thesis
      by simp
  next
    case True
    with Cons.prems obtain item where item: "l_item location = Some item"
      by (auto simp: resolved_def split: option.splits)
    show ?thesis
    proof (cases "i_code item")
      case None
      with item have "\<not> gets_line p location"
        by (simp add: gets_line_def)
      with None True item ls show ?thesis
        by simp
    next
      case (Some code)
      with Cons.prems True item obtain address loc where
        a: "l_address location = Some address" "l2r address = Some loc"
        by (auto simp: resolved_def split: option.splits)
      have g: "gets_line p location"
        using True item Some by (simp add: gets_line_def)
      show ?thesis
      proof (cases "i_player item = p")
        case False
        let ?line = "foreign_record (loc_type loc) (loc_index loc) (CHECK_NONE pe) code
          (i_player item)"
        have run: "placement_lines pe p l2r i2r (location # rest) = Inr (?line # ls)"
          using True item Some a False ls(1) by (simp add: foreign_record_def)
        have "expected_record pe p l2r i2r location ?line"
          using item Some a False by (simp add: expected_record_def)
        with run g ls(2) show ?thesis
          by simp
      next
        case own: True
        with Cons.prems True item Some obtain raw where raw: "i2r code = Some raw"
          by (auto simp: resolved_def split: option.splits)
        let ?line = "same_player_record (loc_type loc) (loc_index loc) (item_type raw)
          (item_index raw)"
        have run: "placement_lines pe p l2r i2r (location # rest) = Inr (?line # ls)"
          using True item Some a own raw ls(1) by (simp add: same_player_record_def)
        have "expected_record pe p l2r i2r location ?line"
          using item Some a own raw by (simp add: expected_record_def)
        with run g ls(2) show ?thesis
          by simp
      qed
    qed
  qed
qed

lemma count_list_concat_lines:
  "\<forall>line \<in> set lines. count_list line c = 1 \<Longrightarrow> count_list (concat lines) c = length lines"
  by (induction lines) auto

lemma placement_lines_Inr_resolved:
  "placement_lines pe p l2r i2r locs = Inr lines \<Longrightarrow> resolved p l2r i2r locs"
proof (induction locs arbitrary: lines)
  case Nil
  then show ?case by (simp add: resolved_def)
next
  case (Cons location rest)
  have step: "resolved p l2r i2r (location # rest) =
      ((l_player location \<noteq> p \<or>
        (case l_item location of
           None \<Rightarrow> False
         | Some item \<Rightarrow>
             (case i_code item of
                None \<Rightarrow> True
              | Some code \<Rightarrow>
                  (case l_address location of
                     None \<Rightarrow> False
                   | Some address \<Rightarrow> l2r address \<noteq> None) \<and>
                  (i_player item \<noteq> p \<or> i2r code \<noteq> None)))) \<and>
       resolved p l2r i2r rest)"
    by (simp add: resolved_def)
  show ?case
  proof (cases "l_player location = p")
    case False
    with Cons.prems have "placement_lines pe p l2r i2r rest = Inr lines"
      by simp
    from Cons.IH [OF this] False show ?thesis
      unfolding step by simp
  next
    case True
    with Cons.prems obtain item where item: "l_item location = Some item"
      by (cases "l_item location") auto
    show ?thesis
    proof (cases "i_code item")
      case None
      with Cons.prems True item have "placement_lines pe p l2r i2r rest = Inr lines"
        by simp
      from Cons.IH [OF this] item None show ?thesis
        unfolding step by simp
    next
      case (Some code)
      with Cons.prems True item obtain address loc where
        a: "l_address location = Some address" "l2r address = Some loc"
        by (cases "l_address location") (auto split: option.splits)
      show ?thesis
      proof (cases "i_player item = p")
        case False
        with Cons.prems True item Some a obtain ls where
          "placement_lines pe p l2r i2r rest = Inr ls"
          by (cases "placement_lines pe p l2r i2r rest") auto
        from Cons.IH [OF this] item Some a False show ?thesis
          unfolding step by simp
      next
        case own: True
        with Cons.prems True item Some a obtain raw where raw: "i2r code = Some raw"
          by (cases "i2r code") auto
        with Cons.prems True item Some a own obtain ls where
          "placement_lines pe p l2r i2r rest = Inr ls"
          by (cases "placement_lines pe p l2r i2r rest") auto
        from Cons.IH [OF this] item Some a raw show ?thesis
          unfolding step by simp
      qed
    qed
  qed
qed
end
